theory Spec2Isabelle
  imports Complex_Main
begin

section \<open>Data model (src/types/index.ts)\<close>

text \<open>
  JavaScript numbers that the schema constrains to integers are \<open>int\<close>; the values drawn
  from \<open>Math.random()\<close> and \<open>skipProbability\<close> are \<open>real\<close>. A \<open>Date\<close> is its local
  wall-clock time in milliseconds since 1970-01-01T00:00 local time. The time zone is first
  taken to have a fixed offset from UTC (no daylight-saving transition inside the range), so
  the order of \<open>getTime()\<close> values is the order of these local values; the plan builder is
  then given again for a zone with daylight saving.
\<close>

record CommitsPerDay =
  cpdMin :: int
  cpdMax :: int

record TimeRange =
  trStart :: string
  trEnd :: string

record Config =
  repoPath :: string
  startDate :: string
  endDate :: string
  commitsPerDay :: CommitsPerDay
  commitMessage :: string
  targetFile :: string
  skipDays :: "int list"
  skipProbability :: real
  timeRange :: TimeRange
  autoPush :: bool
  branch :: "string option"

record CommitPlan =
  date :: int
  time :: string
  message :: string
  index :: nat

record GenerateResult =
  success :: bool
  totalCommits :: int
  resStartDate :: string
  resEndDate :: string
  duration :: int
  errors :: "string list"

record RepoStatus =
  isRepo :: bool
  currentBranch :: "string option"
  hasUncommittedChanges :: bool
  remoteUrl :: "string option"
  isConnected :: bool

datatype ErrorCode =
    NOT_A_GIT_REPO
  | UNCOMMITTED_CHANGES
  | INVALID_DATE_RANGE
  | INVALID_CONFIG
  | GIT_OPERATION_FAILED
  | NETWORK_ERROR
  | PERMISSION_DENIED
  | USER_CANCELLED
  | UNKNOWN

record AutoCommitError =
  errMessage :: string
  code :: ErrorCode

definition mkError :: "string \<Rightarrow> ErrorCode \<Rightarrow> AutoCommitError" where
  "mkError m c = \<lparr>errMessage = m, code = c\<rparr>"

section \<open>Calendar arithmetic standing in for date-fns\<close>

text \<open>
  date-fns is a library the program imports. The functions below give the behaviour of
  the calls the program makes (\<open>parseISO\<close> on a \<open>YYYY-MM-DD\<close> string, \<open>isValid\<close>,
  \<open>eachDayOfInterval\<close>, \<open>getDay\<close>, the four setters, \<open>format\<close> with the patterns used)
  on the proleptic Gregorian calendar.
\<close>

definition msPerDay :: int where
  "msPerDay = 86400000"

definition isDigit :: "char \<Rightarrow> bool" where
  "isDigit c = (48 \<le> (of_char c :: int) \<and> (of_char c :: int) \<le> 57)"

definition digitVal :: "char \<Rightarrow> int" where
  "digitVal c = of_char c - 48"

fun digitsVal :: "string \<Rightarrow> int" where
  "digitsVal cs = foldl (\<lambda>acc c. 10 * acc + digitVal c) 0 cs"

definition isLeapYear :: "int \<Rightarrow> bool" where
  "isLeapYear y = (y mod 400 = 0 \<or> (y mod 4 = 0 \<and> y mod 100 \<noteq> 0))"

definition daysInMonth :: "int \<Rightarrow> int \<Rightarrow> int" where
  "daysInMonth y m =
     (if m = 2 then (if isLeapYear y then 29 else 28)
      else if m = 4 \<or> m = 6 \<or> m = 9 \<or> m = 11 then 30 else 31)"

text \<open>Day number (days since 1970-01-01) of a civil date, and back.\<close>

definition daysFromCivil :: "int \<Rightarrow> int \<Rightarrow> int \<Rightarrow> int" where
  "daysFromCivil y m d =
     (let y1 = (if m \<le> 2 then y - 1 else y);
          era = y1 div 400;
          yoe = y1 - era * 400;
          doy = (153 * (if m > 2 then m - 3 else m + 9) + 2) div 5 + d - 1;
          doe = yoe * 365 + yoe div 4 - yoe div 100 + doy
      in era * 146097 + doe - 719468)"

definition civilFromDays :: "int \<Rightarrow> int \<times> int \<times> int" where
  "civilFromDays z =
     (let z1 = z + 719468;
          era = z1 div 146097;
          doe = z1 - era * 146097;
          yoe = (doe - doe div 1460 + doe div 36524 - doe div 146096) div 365;
          doy = doe - (365 * yoe + yoe div 4 - yoe div 100);
          mp = (5 * doy + 2) div 153;
          d = doy - (153 * mp + 2) div 5 + 1;
          m = (if mp < 10 then mp + 3 else mp - 9);
          y = yoe + era * 400
      in (if m \<le> 2 then y + 1 else y, m, d))"

text \<open>
  \<open>parseISO\<close> on a string of the schema's shape \<open>dddd-dd-dd\<close>: local midnight of that
  day, or \<open>None\<close> for an Invalid Date (month outside 1..12 or day outside the month).
  Strings of another shape are excluded by the schema's regex and are mapped to \<open>None\<close>.
\<close>

definition parseISO :: "string \<Rightarrow> int option" where
  "parseISO s =
     (case s of
        [y1, y2, y3, y4, h1, m1, m2, h2, d1, d2] \<Rightarrow>
          (if list_all isDigit [y1, y2, y3, y4, m1, m2, d1, d2] \<and> h1 = CHR ''-'' \<and> h2 = CHR ''-''
           then (let y = digitsVal [y1, y2, y3, y4]; m = digitsVal [m1, m2]; d = digitsVal [d1, d2]
                 in if 1 \<le> m \<and> m \<le> 12 \<and> 1 \<le> d \<and> d \<le> daysInMonth y m
                    then Some (daysFromCivil y m d * msPerDay) else None)
           else None)
      | _ \<Rightarrow> None)"

definition eachDayOfInterval :: "int \<Rightarrow> int \<Rightarrow> int list" where
  "eachDayOfInterval start end = map (\<lambda>d. d * msPerDay) [start div msPerDay .. end div msPerDay]"

definition getDay :: "int \<Rightarrow> int" where
  "getDay t = (t div msPerDay + 4) mod 7"

definition getHours :: "int \<Rightarrow> int" where
  "getHours t = (t mod msPerDay) div 3600000"

definition getMinutes :: "int \<Rightarrow> int" where
  "getMinutes t = (t mod 3600000) div 60000"

definition getSeconds :: "int \<Rightarrow> int" where
  "getSeconds t = (t mod 60000) div 1000"

definition getMilliseconds :: "int \<Rightarrow> int" where
  "getMilliseconds t = t mod 1000"

definition setHours :: "int \<Rightarrow> int \<Rightarrow> int" where
  "setHours t h = t + (h - getHours t) * 3600000"

definition setMinutes :: "int \<Rightarrow> int \<Rightarrow> int" where
  "setMinutes t m = t + (m - getMinutes t) * 60000"

definition setSeconds :: "int \<Rightarrow> int \<Rightarrow> int" where
  "setSeconds t s = t + (s - getSeconds t) * 1000"

definition setMilliseconds :: "int \<Rightarrow> int \<Rightarrow> int" where
  "setMilliseconds t ms = t + (ms - getMilliseconds t)"

text \<open>Decimal digits of a non-negative integer (\<open>String(n)\<close>, and the digits \<open>format\<close> pads).\<close>

definition digitChar :: "int \<Rightarrow> char" where
  "digitChar d =
     (if d = 0 then CHR ''0'' else if d = 1 then CHR ''1'' else if d = 2 then CHR ''2''
      else if d = 3 then CHR ''3'' else if d = 4 then CHR ''4'' else if d = 5 then CHR ''5''
      else if d = 6 then CHR ''6'' else if d = 7 then CHR ''7'' else if d = 8 then CHR ''8''
      else CHR ''9'')"

function digitsOf :: "int \<Rightarrow> string" where
  "digitsOf n = (if n < 10 then [digitChar n] else digitsOf (n div 10) @ [digitChar (n mod 10)])"
  by pat_completeness auto
termination
  by (relation "measure nat") auto

declare digitsOf.simps [simp del]

definition showNat :: "nat \<Rightarrow> string" where
  "showNat n = digitsOf (int n)"

definition padZero :: "nat \<Rightarrow> int \<Rightarrow> string" where
  "padZero w n = replicate (w - length (digitsOf n)) CHR ''0'' @ digitsOf n"

definition fmtYear :: "int \<Rightarrow> string" where
  "fmtYear t = (let y = fst (civilFromDays (t div msPerDay)) in padZero 4 (if y > 0 then y else 1 - y))"

definition fmtMonth :: "int \<Rightarrow> string" where
  "fmtMonth t = padZero 2 (fst (snd (civilFromDays (t div msPerDay))))"

definition fmtDayOfMonth :: "int \<Rightarrow> string" where
  "fmtDayOfMonth t = padZero 2 (snd (snd (civilFromDays (t div msPerDay))))"

definition fmtDate :: "int \<Rightarrow> string" where
  "fmtDate t = fmtYear t @ ''-'' @ fmtMonth t @ ''-'' @ fmtDayOfMonth t"

definition fmtTime :: "int \<Rightarrow> string" where
  "fmtTime t = padZero 2 (getHours t) @ '':'' @ padZero 2 (getMinutes t) @ '':''
               @ padZero 2 (getSeconds t)"

definition fmtDateTime :: "int \<Rightarrow> string" where
  "fmtDateTime t = fmtDate t @ '' '' @ fmtTime t"

text \<open>\<open>String.prototype.replace\<close> with a global regex that matches one literal text.\<close>

fun replaceAll :: "string \<Rightarrow> string \<Rightarrow> string \<Rightarrow> string" where
  "replaceAll pat rep [] = []"
| "replaceAll pat rep (c # cs) =
     (if pat \<noteq> [] \<and> take (length pat) (c # cs) = pat
      then rep @ replaceAll pat rep (drop (length pat) (c # cs))
      else c # replaceAll pat rep cs)"

section \<open>DateCalculator (core/date-calculator.ts, found in src/types/index.ts)\<close>

text \<open>
  \<open>Math.random()\<close> is a stream of draws \<open>rnd 0, rnd 1, ...\<close>, each in \<open>[0, 1)\<close>; every
  function that draws takes the position of its first draw, and the caller advances the
  position by the number of draws made.
\<close>

type_synonym rng = "nat \<Rightarrow> real"

definition rngOk :: "rng \<Rightarrow> bool" where
  "rngOk rnd = (\<forall>n. 0 \<le> rnd n \<and> rnd n < 1)"

definition quoted :: "string \<Rightarrow> string" where
  "quoted s = [CHR 0x22] @ s @ [CHR 0x22]"

text \<open>
  \<open>parseTime\<close>: \<open>timeStr.split(':').map(Number)\<close>. The schema's regex \<open>^\d{2}:\d{2}$\<close>
  fixes the shape of the string; other strings cannot be in a \<open>Config\<close>.
\<close>

definition parseTime :: "string \<Rightarrow> int \<times> int" where
  "parseTime timeStr =
     (case timeStr of
        [h1, h2, c, m1, m2] \<Rightarrow> (digitsVal [h1, h2], digitsVal [m1, m2])
      | _ \<Rightarrow> (0, 0))"

text \<open>JavaScript's \<open>%\<close> truncates towards zero.\<close>

definition jsRem :: "int \<Rightarrow> int \<Rightarrow> int" where
  "jsRem a b = (if a < 0 then - ((- a) mod \<bar>b\<bar>) else a mod \<bar>b\<bar>)"

text \<open>Draws \<open>rnd n\<close> (the minute) and \<open>rnd (n + 1)\<close> (the second).\<close>

definition generateRandomTime :: "rng \<Rightarrow> nat \<Rightarrow> string \<Rightarrow> string \<Rightarrow> int \<times> int \<times> int" where
  "generateRandomTime rnd n startTime endTime =
     (let start = parseTime startTime;
          end = parseTime endTime;
          startMinutes = fst start * 60 + snd start;
          endMinutes = fst end * 60 + snd end;
          randomMinutes = \<lfloor>rnd n * real_of_int (endMinutes - startMinutes + 1)\<rfloor> + startMinutes;
          randomSeconds = \<lfloor>rnd (n + 1) * 60\<rfloor>
      in (randomMinutes div 60, jsRem randomMinutes 60, randomSeconds))"

definition validateDateRange :: "string \<Rightarrow> string \<Rightarrow> AutoCommitError option" where
  "validateDateRange sd ed =
     (case parseISO sd of
        None \<Rightarrow> Some (mkError (''Invalid start date: '' @ quoted sd) INVALID_DATE_RANGE)
      | Some start \<Rightarrow>
          (case parseISO ed of
             None \<Rightarrow> Some (mkError (''Invalid end date: '' @ quoted ed) INVALID_DATE_RANGE)
           | Some end \<Rightarrow>
               (if start > end
                then Some (mkError (''Start date ('' @ sd @ '') must be before or equal to end date (''
                                    @ ed @ '')'') INVALID_DATE_RANGE)
                else None)))"

definition getDaysInRange :: "string \<Rightarrow> string \<Rightarrow> int list \<Rightarrow> AutoCommitError + int list" where
  "getDaysInRange sd ed skip =
     (case validateDateRange sd ed of
        Some e \<Rightarrow> Inl e
      | None \<Rightarrow>
          (let start = the (parseISO sd);
               end = the (parseISO ed);
               allDays = eachDayOfInterval start end
           in Inr (filter (\<lambda>day. getDay day \<notin> set skip) allDays)))"

definition getRandomCommitCount :: "rng \<Rightarrow> nat \<Rightarrow> int \<Rightarrow> int \<Rightarrow> int" where
  "getRandomCommitCount rnd n mn mx = \<lfloor>rnd n * real_of_int (mx - mn + 1)\<rfloor> + mn"

definition shouldSkipDay :: "rng \<Rightarrow> nat \<Rightarrow> real \<Rightarrow> bool" where
  "shouldSkipDay rnd n probability = (rnd n < probability)"

definition formatCommitMessage :: "string \<Rightarrow> int \<Rightarrow> nat \<Rightarrow> string" where
  "formatCommitMessage template d idx =
     replaceAll ''{{day}}'' (fmtDayOfMonth d)
       (replaceAll ''{{month}}'' (fmtMonth d)
         (replaceAll ''{{year}}'' (fmtYear d)
           (replaceAll ''{{index}}'' (showNat (idx + 1))
             (replaceAll ''{{time}}'' (fmtTime d)
               (replaceAll ''{{datetime}}'' (fmtDateTime d)
                 (replaceAll ''{{date}}'' (fmtDate d) template))))))"

text \<open>
  The inner loop of \<open>generateCommitPlan\<close>: \<open>c\<close> iterations remain for \<open>day\<close>, the next draw
  is \<open>rnd n\<close>, the next index is \<open>commitIndex\<close>. Each iteration makes three draws.
\<close>

fun commitsForDay :: "rng \<Rightarrow> Config \<Rightarrow> int \<Rightarrow> nat \<Rightarrow> nat \<Rightarrow> nat \<Rightarrow> CommitPlan list" where
  "commitsForDay rnd config day 0 n commitIndex = []"
| "commitsForDay rnd config day (Suc c) n commitIndex =
     (let tm = generateRandomTime rnd n (trStart (timeRange config)) (trEnd (timeRange config));
          commitDate0 = setHours day (fst tm);
          commitDate1 = setMinutes commitDate0 (fst (snd tm));
          commitDate2 = setSeconds commitDate1 (snd (snd tm));
          commitDate = setMilliseconds commitDate2 \<lfloor>rnd (n + 2) * 1000\<rfloor>;
          msg = formatCommitMessage (commitMessage config) commitDate commitIndex
      in \<lparr>date = commitDate, time = fmtTime commitDate, message = msg, index = commitIndex\<rparr>
         # commitsForDay rnd config day c (n + 3) (commitIndex + 1))"

text \<open>The outer loop: one draw for the skip roll, one for the commit count of a kept day.\<close>

fun planDays :: "rng \<Rightarrow> Config \<Rightarrow> int list \<Rightarrow> nat \<Rightarrow> nat \<Rightarrow> CommitPlan list" where
  "planDays rnd config [] n commitIndex = []"
| "planDays rnd config (day # days) n commitIndex =
     (if shouldSkipDay rnd n (skipProbability config)
      then planDays rnd config days (n + 1) commitIndex
      else (let commitCount = nat (getRandomCommitCount rnd (n + 1)
                                     (cpdMin (commitsPerDay config)) (cpdMax (commitsPerDay config)))
            in commitsForDay rnd config day commitCount (n + 2) commitIndex
               @ planDays rnd config days (n + 2 + 3 * commitCount) (commitIndex + commitCount)))"

text \<open>
  \<open>Array.prototype.sort\<close> is stable (ECMAScript 2019, Node 18 as the README requires), with
  the comparator \<open>a.date.getTime() - b.date.getTime()\<close>: a stable sort on the key \<open>date\<close>.
\<close>

definition generateCommitPlan :: "rng \<Rightarrow> Config \<Rightarrow> AutoCommitError + CommitPlan list" where
  "generateCommitPlan rnd config =
     (case getDaysInRange (startDate config) (endDate config) (skipDays config) of
        Inl e \<Rightarrow> Inl e
      | Inr days \<Rightarrow> Inr (sort_key date (planDays rnd config days 0 0)))"

record Estimate =
  estMin :: int
  estMax :: int
  estExpected :: int

definition estimateCommitCount :: "Config \<Rightarrow> AutoCommitError + Estimate" where
  "estimateCommitCount config =
     (case getDaysInRange (startDate config) (endDate config) (skipDays config) of
        Inl e \<Rightarrow> Inl e
      | Inr days \<Rightarrow>
          (let effectiveDays = real (length days) * (1 - skipProbability config)
           in Inr \<lparr>estMin = \<lfloor>effectiveDays * real_of_int (cpdMin (commitsPerDay config))\<rfloor>,
                   estMax = \<lfloor>effectiveDays * real_of_int (cpdMax (commitsPerDay config))\<rfloor>,
                   estExpected = \<lfloor>effectiveDays * real_of_int (cpdMin (commitsPerDay config)
                                                    + cpdMax (commitsPerDay config)) / 2\<rfloor>\<rparr>))"

section \<open>Validator (src/utils/validator.ts)\<close>

definition isValidDateFormat :: "string \<Rightarrow> bool" where
  "isValidDateFormat dateStr = (parseISO dateStr \<noteq> None)"

definition isValidTimeFormat :: "string \<Rightarrow> bool" where
  "isValidTimeFormat timeStr =
     (case timeStr of
        [h1, h2, c, m1, m2] \<Rightarrow>
          ((h1 \<in> {CHR ''0'', CHR ''1''} \<and> isDigit h2) \<or> (h1 = CHR ''2'' \<and> h2 \<in> {CHR ''0'', CHR ''1'', CHR ''2'', CHR ''3''}))
          \<and> c = CHR '':''
          \<and> m1 \<in> {CHR ''0'', CHR ''1'', CHR ''2'', CHR ''3'', CHR ''4'', CHR ''5''} \<and> isDigit m2
      | _ \<Rightarrow> False)"

definition isValidDateRange :: "string \<Rightarrow> string \<Rightarrow> bool" where
  "isValidDateRange sd ed =
     (if \<not> isValidDateFormat sd \<or> \<not> isValidDateFormat ed then False
      else the (parseISO sd) \<le> the (parseISO ed))"

definition isValidCommitsPerDay :: "int \<Rightarrow> int \<Rightarrow> bool" where
  "isValidCommitsPerDay mn mx = (mn \<ge> 0 \<and> mx \<ge> 1 \<and> mn \<le> mx \<and> mx \<le> 50)"

definition isValidProbability :: "real \<Rightarrow> bool" where
  "isValidProbability prob = (prob \<ge> 0 \<and> prob \<le> 1)"

definition isValidSkipDays :: "int list \<Rightarrow> bool" where
  "isValidSkipDays days = list_all (\<lambda>day. day \<ge> 0 \<and> day \<le> 6) days"

text \<open>The \<open>errors\<close> list of \<open>validateConfig\<close>; its \<open>valid\<close> field is \<open>errors.length === 0\<close>.\<close>

definition validateConfigErrors :: "Config \<Rightarrow> string list" where
  "validateConfigErrors config =
     (if startDate config = [] then [''Start date is required'']
      else if \<not> isValidDateFormat (startDate config)
      then [''Invalid start date format: '' @ quoted (startDate config) @ ''. Use YYYY-MM-DD format.'']
      else [])
     @ (if endDate config = [] then [''End date is required'']
        else if \<not> isValidDateFormat (endDate config)
        then [''Invalid end date format: '' @ quoted (endDate config) @ ''. Use YYYY-MM-DD format.'']
        else [])
     @ (if startDate config \<noteq> [] \<and> endDate config \<noteq> []
           \<and> \<not> isValidDateRange (startDate config) (endDate config)
        then [''Start date must be before or equal to end date''] else [])
     @ (if \<not> isValidCommitsPerDay (cpdMin (commitsPerDay config)) (cpdMax (commitsPerDay config))
        then [''Commits per day must be integers between 0-50, and min must be <= max''] else [])
     @ (if \<not> isValidTimeFormat (trStart (timeRange config))
        then [''Invalid start time format: '' @ quoted (trStart (timeRange config)) @ ''. Use HH:MM format.'']
        else [])
     @ (if \<not> isValidTimeFormat (trEnd (timeRange config))
        then [''Invalid end time format: '' @ quoted (trEnd (timeRange config)) @ ''. Use HH:MM format.'']
        else [])
     @ (if \<not> isValidProbability (skipProbability config)
        then [''Skip probability must be a number between 0 and 1''] else [])
     @ (if \<not> isValidSkipDays (skipDays config)
        then [''Skip days must be integers between 0 (Sunday) and 6 (Saturday)''] else [])"

definition validConfig :: "Config \<Rightarrow> bool" where
  "validConfig config = (validateConfigErrors config = [])"

text \<open>
  The time window as minutes of the day, and the data model's order \<open>start \<le> end\<close>, which
  no function of the program checks.
\<close>

definition windowStart :: "Config \<Rightarrow> int" where
  "windowStart config = (let s = parseTime (trStart (timeRange config)) in fst s * 60 + snd s)"

definition windowEnd :: "Config \<Rightarrow> int" where
  "windowEnd config = (let e = parseTime (trEnd (timeRange config)) in fst e * 60 + snd e)"

definition windowOrdered :: "Config \<Rightarrow> bool" where
  "windowOrdered config = (windowStart config \<le> windowEnd config)"

section \<open>DateCalculator in a time zone with daylight saving\<close>

text \<open>
  date-fns builds every \<open>Date\<close> from local wall-clock fields. Where the requested wall-clock
  time does not exist (the hour skipped when daylight saving begins), JavaScript moves it
  forward by the length of the gap. A zone is that resolution: \<open>z t\<close> is the wall-clock
  reading of the \<open>Date\<close> built for the requested wall-clock time \<open>t\<close>; it is \<open>t\<close> itself
  wherever \<open>t\<close> exists. The order of \<open>getTime()\<close> values is the order of the readings.

  The definitions below are the ones of the DateCalculator section with every \<open>Date\<close> built
  through the zone; \<open>fixedZone\<close> gives those definitions back.
\<close>

type_synonym zone = "int \<Rightarrow> int"

definition fixedZone :: zone where
  "fixedZone = (\<lambda>t. t)"

definition setHoursIn :: "zone \<Rightarrow> int \<Rightarrow> int \<Rightarrow> int" where
  "setHoursIn z t h = z (setHours t h)"

definition setMinutesIn :: "zone \<Rightarrow> int \<Rightarrow> int \<Rightarrow> int" where
  "setMinutesIn z t m = z (setMinutes t m)"

definition setSecondsIn :: "zone \<Rightarrow> int \<Rightarrow> int \<Rightarrow> int" where
  "setSecondsIn z t s = z (setSeconds t s)"

definition setMillisecondsIn :: "zone \<Rightarrow> int \<Rightarrow> int \<Rightarrow> int" where
  "setMillisecondsIn z t ms = z (setMilliseconds t ms)"

definition parseISOIn :: "zone \<Rightarrow> string \<Rightarrow> int option" where
  "parseISOIn z s = map_option z (parseISO s)"

definition eachDayOfIntervalIn :: "zone \<Rightarrow> int \<Rightarrow> int \<Rightarrow> int list" where
  "eachDayOfIntervalIn z start end = map z (eachDayOfInterval start end)"

definition validateDateRangeIn :: "zone \<Rightarrow> string \<Rightarrow> string \<Rightarrow> AutoCommitError option" where
  "validateDateRangeIn z sd ed =
     (case parseISOIn z sd of
        None \<Rightarrow> Some (mkError (''Invalid start date: '' @ quoted sd) INVALID_DATE_RANGE)
      | Some start \<Rightarrow>
          (case parseISOIn z ed of
             None \<Rightarrow> Some (mkError (''Invalid end date: '' @ quoted ed) INVALID_DATE_RANGE)
           | Some end \<Rightarrow>
               (if start > end
                then Some (mkError (''Start date ('' @ sd @ '') must be before or equal to end date (''
                                    @ ed @ '')'') INVALID_DATE_RANGE)
                else None)))"

definition getDaysInRangeIn :: "zone \<Rightarrow> string \<Rightarrow> string \<Rightarrow> int list \<Rightarrow> AutoCommitError + int list" where
  "getDaysInRangeIn z sd ed skip =
     (case validateDateRangeIn z sd ed of
        Some e \<Rightarrow> Inl e
      | None \<Rightarrow>
          (let start = the (parseISOIn z sd);
               end = the (parseISOIn z ed);
               allDays = eachDayOfIntervalIn z start end
           in Inr (filter (\<lambda>day. getDay day \<notin> set skip) allDays)))"

fun commitsForDayIn :: "zone \<Rightarrow> rng \<Rightarrow> Config \<Rightarrow> int \<Rightarrow> nat \<Rightarrow> nat \<Rightarrow> nat \<Rightarrow> CommitPlan list" where
  "commitsForDayIn z rnd config day 0 n commitIndex = []"
| "commitsForDayIn z rnd config day (Suc c) n commitIndex =
     (let tm = generateRandomTime rnd n (trStart (timeRange config)) (trEnd (timeRange config));
          commitDate0 = setHoursIn z day (fst tm);
          commitDate1 = setMinutesIn z commitDate0 (fst (snd tm));
          commitDate2 = setSecondsIn z commitDate1 (snd (snd tm));
          commitDate = setMillisecondsIn z commitDate2 \<lfloor>rnd (n + 2) * 1000\<rfloor>;
          msg = formatCommitMessage (commitMessage config) commitDate commitIndex
      in \<lparr>date = commitDate, time = fmtTime commitDate, message = msg, index = commitIndex\<rparr>
         # commitsForDayIn z rnd config day c (n + 3) (commitIndex + 1))"

fun planDaysIn :: "zone \<Rightarrow> rng \<Rightarrow> Config \<Rightarrow> int list \<Rightarrow> nat \<Rightarrow> nat \<Rightarrow> CommitPlan list" where
  "planDaysIn z rnd config [] n commitIndex = []"
| "planDaysIn z rnd config (day # days) n commitIndex =
     (if shouldSkipDay rnd n (skipProbability config)
      then planDaysIn z rnd config days (n + 1) commitIndex
      else (let commitCount = nat (getRandomCommitCount rnd (n + 1)
                                     (cpdMin (commitsPerDay config)) (cpdMax (commitsPerDay config)))
            in commitsForDayIn z rnd config day commitCount (n + 2) commitIndex
               @ planDaysIn z rnd config days (n + 2 + 3 * commitCount) (commitIndex + commitCount)))"

definition generateCommitPlanIn :: "zone \<Rightarrow> rng \<Rightarrow> Config \<Rightarrow> AutoCommitError + CommitPlan list" where
  "generateCommitPlanIn z rnd config =
     (case getDaysInRangeIn z (startDate config) (endDate config) (skipDays config) of
        Inl e \<Rightarrow> Inl e
      | Inr days \<Rightarrow> Inr (sort_key date (planDaysIn z rnd config days 0 0)))"

section \<open>GitService (src/core/git-service.ts)\<close>

text \<open>
  The repository and the \<open>git\<close> binary are outside the program. What they answer is read
  from an environment record; what the program asks of them is appended to a log. The log
  holds the calls of \<open>createCommit\<close> and \<open>push\<close> and every \<open>git reset\<close> that is issued.

  \<open>cancel()\<close> is called from a signal handler, which can only run while \<open>generate\<close> is
  suspended in an \<open>await\<close>; the environment says during which awaits the signal arrives.
\<close>

datatype GitCall =
    CreateCommit string int string string
  | GitReset int
  | Push "string option"

record Env =
  envRepoPath :: string
  envStatus :: "string + RepoStatus"
  envCommit :: "nat \<Rightarrow> string + string"
  envReset :: "int \<Rightarrow> string option"
  envPush :: "string option"
  envCancelInValidate :: bool
  envCancelInCommit :: "nat \<Rightarrow> bool"
  envCancelInPush :: bool
  envDuration :: int

definition showInt :: "int \<Rightarrow> string" where
  "showInt k = (if k < 0 then ''-'' @ digitsOf (- k) else digitsOf k)"

definition getRepoStatus :: "Env \<Rightarrow> AutoCommitError + RepoStatus" where
  "getRepoStatus env =
     (case envStatus env of
        Inl e \<Rightarrow> Inl (mkError (''Failed to get repository status: '' @ e) GIT_OPERATION_FAILED)
      | Inr status \<Rightarrow> Inr status)"

definition validateRepo :: "Env \<Rightarrow> bool \<Rightarrow> AutoCommitError option" where
  "validateRepo env allowUncommittedChanges =
     (case getRepoStatus env of
        Inl e \<Rightarrow> Some e
      | Inr status \<Rightarrow>
          (if \<not> isRepo status
           then Some (mkError (quoted (envRepoPath env) @ '' is not a Git repository'') NOT_A_GIT_REPO)
           else if \<not> allowUncommittedChanges \<and> hasUncommittedChanges status
           then Some (mkError ''Repository has uncommitted changes'' UNCOMMITTED_CHANGES)
           else None))"

text \<open>
  \<open>createCommit\<close> for the entry at loop position \<open>i\<close>: any failure inside it is rethrown as
  \<open>GIT_OPERATION_FAILED\<close>; on success the abbreviated hash of \<open>HEAD\<close> is returned.
\<close>

definition createCommit ::
  "Env \<Rightarrow> nat \<Rightarrow> string \<Rightarrow> int \<Rightarrow> string \<Rightarrow> string \<Rightarrow> GitCall list
     \<Rightarrow> GitCall list \<times> (AutoCommitError + string)" where
  "createCommit env i msg d filePath content lg =
     (lg @ [CreateCommit msg d filePath content],
      (case envCommit env i of
         Inl e \<Rightarrow> Inl (mkError (''Failed to create commit: '' @ e) GIT_OPERATION_FAILED)
       | Inr hash \<Rightarrow> Inr (take 7 hash)))"

definition GitService_rollback :: "Env \<Rightarrow> int \<Rightarrow> GitCall list \<Rightarrow> GitCall list \<times> AutoCommitError option" where
  "GitService_rollback env count lg =
     (if count \<le> 0
      then (lg, Some (mkError ''Rollback count must be greater than 0'' INVALID_CONFIG))
      else (lg @ [GitReset count],
            (case envReset env count of
               Some e \<Rightarrow> Some (mkError (''Failed to rollback '' @ showInt count @ '' commits: '' @ e)
                                 GIT_OPERATION_FAILED)
             | None \<Rightarrow> None)))"

definition push :: "Env \<Rightarrow> string option \<Rightarrow> GitCall list \<Rightarrow> GitCall list \<times> AutoCommitError option" where
  "push env br lg =
     (lg @ [Push br],
      (case envPush env of
         Some e \<Rightarrow> Some (mkError (''Failed to push to remote: '' @ e) NETWORK_ERROR)
       | None \<Rightarrow> None))"

section \<open>CommitGenerator (src/core/commit-generator.ts)\<close>

record CommitGenerator =
  cancelled :: bool
  generatedCommits :: int
  gitLog :: "GitCall list"

text \<open>
  The state of one run of \<open>generate\<close>: the generator's fields, the local \<open>errors\<close> array and
  the calls made to \<open>onProgress\<close> (current, total, message).
\<close>

record RunState =
  gen :: CommitGenerator
  runErrors :: "string list"
  progressLog :: "(nat \<times> nat \<times> string) list"

definition generatePlan :: "rng \<Rightarrow> Config \<Rightarrow> AutoCommitError + CommitPlan list" where
  "generatePlan rnd config = generateCommitPlan rnd config"

definition getEstimate :: "Config \<Rightarrow> AutoCommitError + Estimate" where
  "getEstimate config = estimateCommitCount config"

definition cancel :: "CommitGenerator \<Rightarrow> CommitGenerator" where
  "cancel g = g\<lparr>cancelled := True\<rparr>"

definition isCancelled :: "CommitGenerator \<Rightarrow> bool" where
  "isCancelled g = cancelled g"

definition getGeneratedCommitsCount :: "CommitGenerator \<Rightarrow> int" where
  "getGeneratedCommitsCount g = generatedCommits g"

text \<open>\<open>rollback(count?)\<close>: \<open>None\<close> is the omitted argument.\<close>

definition rollback :: "Env \<Rightarrow> int option \<Rightarrow> CommitGenerator \<Rightarrow> CommitGenerator \<times> AutoCommitError option" where
  "rollback env count g =
     (let rollbackCount = (case count of Some c \<Rightarrow> c | None \<Rightarrow> generatedCommits g)
      in if rollbackCount > 0
         then (case GitService_rollback env rollbackCount (gitLog g) of
                 (log1, Some e) \<Rightarrow> (g\<lparr>gitLog := log1\<rparr>, Some e)
               | (log1, None) \<Rightarrow> (g\<lparr>generatedCommits := 0, gitLog := log1\<rparr>, None))
         else (g, None))"

definition generateFileContent :: "CommitPlan \<Rightarrow> string" where
  "generateFileContent commit =
     ''['' @ fmtDateTime (date commit) @ ''] Commit #'' @ showNat (index commit + 1) @ '': '' @ message commit"

definition cancelledError :: "int \<Rightarrow> AutoCommitError" where
  "cancelledError k = mkError (''Operation cancelled after '' @ showInt k @ '' commits'') USER_CANCELLED"

text \<open>
  The body of the \<open>try\<close>/\<open>catch\<close> of one loop iteration, for the entry \<open>commit\<close> at
  position \<open>i\<close>; \<open>sink\<close> says whether an \<open>onProgress\<close> callback was given. The callback
  only records its arguments. A signal that arrives while \<open>createCommit\<close> is awaited sets
  the \<open>cancelled\<close> flag.
\<close>

definition attemptCommit ::
  "Env \<Rightarrow> Config \<Rightarrow> bool \<Rightarrow> nat \<Rightarrow> nat \<Rightarrow> CommitPlan \<Rightarrow> RunState \<Rightarrow> RunState" where
  "attemptCommit env config sink totl i commit st =
     (let content = generateFileContent commit;
          r = createCommit env i (message commit) (date commit) (targetFile config) content
                (gitLog (gen st));
          g1 = (gen st)\<lparr>cancelled := cancelled (gen st) \<or> envCancelInCommit env i, gitLog := fst r\<rparr>
      in (case snd r of
            Inr hash \<Rightarrow>
              st\<lparr>gen := g1\<lparr>generatedCommits := generatedCommits g1 + 1\<rparr>,
                 progressLog := progressLog st @
                   (if sink
                    then [(i + 1, totl,
                           ''Committed: '' @ message commit @ '' ('' @ fmtDateTime (date commit) @ '')'')]
                    else [])\<rparr>
          | Inl err \<Rightarrow>
              st\<lparr>gen := g1,
                 runErrors := runErrors st @
                   [''Failed to create commit '' @ showNat (i + 1) @ '': '' @ errMessage err],
                 progressLog := progressLog st @
                   (if sink then [(i + 1, totl, ''Error: '' @ errMessage err)] else [])\<rparr>))"

text \<open>
  The loop of \<open>generate\<close> from position \<open>i\<close> on, over the entries \<open>plan[i..]\<close>. The first
  component of the result is the error thrown out of the loop, if any.
\<close>

fun executeCommits ::
  "Env \<Rightarrow> Config \<Rightarrow> bool \<Rightarrow> nat \<Rightarrow> nat \<Rightarrow> CommitPlan list \<Rightarrow> RunState
     \<Rightarrow> AutoCommitError option \<times> RunState" where
  "executeCommits env config sink totl i [] st = (None, st)"
| "executeCommits env config sink totl i (commit # rest) st =
     (if cancelled (gen st)
      then (Some (cancelledError (generatedCommits (gen st))), st)
      else executeCommits env config sink totl (Suc i) rest
             (attemptCommit env config sink totl i commit st))"

definition pushIfConfigured :: "Env \<Rightarrow> Config \<Rightarrow> RunState \<Rightarrow> RunState" where
  "pushIfConfigured env config st =
     (if autoPush config \<and> generatedCommits (gen st) > 0
      then (case push env (branch config) (gitLog (gen st)) of
              (log1, r) \<Rightarrow>
                st\<lparr>gen := (gen st)\<lparr>cancelled := cancelled (gen st) \<or> envCancelInPush env, gitLog := log1\<rparr>,
                   runErrors := runErrors st @
                     (case r of Some e \<Rightarrow> [''Failed to push: '' @ errMessage e] | None \<Rightarrow> [])\<rparr>)
      else st)"

definition generate ::
  "Env \<Rightarrow> rng \<Rightarrow> Config \<Rightarrow> bool \<Rightarrow> CommitGenerator \<Rightarrow> (AutoCommitError + GenerateResult) \<times> RunState" where
  "generate env rnd config sink g =
     (let st0 = \<lparr>gen = g\<lparr>cancelled := False, generatedCommits := 0\<rparr>, runErrors = [], progressLog = []\<rparr>;
          st1 = st0\<lparr>gen := (gen st0)\<lparr>cancelled := cancelled (gen st0) \<or> envCancelInValidate env\<rparr>\<rparr>
      in (case validateRepo env True of
            Some e \<Rightarrow> (Inl e, st1)
          | None \<Rightarrow>
              (case generatePlan rnd config of
                 Inl e \<Rightarrow> (Inl e, st1)
               | Inr plan \<Rightarrow>
                   (if length plan = 0
                    then (Inr \<lparr>success = True, totalCommits = 0,
                               resStartDate = startDate config, resEndDate = endDate config,
                               duration = envDuration env,
                               errors = [''No commits to generate based on the configuration'']\<rparr>, st1)
                    else (case executeCommits env config sink (length plan) 0 plan st1 of
                            (Some e, st2) \<Rightarrow> (Inl e, st2)
                          | (None, st2) \<Rightarrow>
                              (let st3 = pushIfConfigured env config st2
                               in (Inr \<lparr>success = (length (runErrors st3) = 0),
                                        totalCommits = generatedCommits (gen st3),
                                        resStartDate = startDate config, resEndDate = endDate config,
                                        duration = envDuration env,
                                        errors = runErrors st3\<rparr>, st3)))))))"

section \<open>Vocabulary of the properties\<close>

text \<open>
  The order the plan is claimed to have: by timestamp, ties by \<open>index\<close>.
\<close>

definition planOrder :: "CommitPlan \<Rightarrow> CommitPlan \<Rightarrow> bool" where
  "planOrder a b = (date a < date b \<or> (date a = date b \<and> index a < index b))"

text \<open>Calendar day, time of day (milliseconds since midnight) and minute of the day of an instant.\<close>

definition calendarDay :: "int \<Rightarrow> int" where
  "calendarDay t = t div msPerDay"

definition timeOfDay :: "int \<Rightarrow> int" where
  "timeOfDay t = t mod msPerDay"

definition minuteOfDay :: "int \<Rightarrow> int" where
  "minuteOfDay t = timeOfDay t div 60000"

definition calendarDays :: "Config \<Rightarrow> int" where
  "calendarDays config =
     calendarDay (the (parseISO (endDate config))) - calendarDay (the (parseISO (startDate config))) + 1"




text \<open>
  What the environment decides about the run: which attempts succeed, the call each entry
  makes, the text of each failure, the arguments each entry passes to the progress sink.
\<close>

definition succeeded :: "Env \<Rightarrow> nat \<Rightarrow> bool" where
  "succeeded env i = (\<not> isl (envCommit env i))"

definition successCount :: "Env \<Rightarrow> nat \<Rightarrow> nat \<Rightarrow> nat" where
  "successCount env i n = length (filter (succeeded env) [i ..< i + n])"

definition commitCall :: "Config \<Rightarrow> CommitPlan \<Rightarrow> GitCall" where
  "commitCall config c = CreateCommit (message c) (date c) (targetFile config) (generateFileContent c)"

definition commitFailure :: "Env \<Rightarrow> nat \<Rightarrow> string" where
  "commitFailure env i = ''Failed to create commit: '' @ projl (envCommit env i)"

definition entryError :: "Env \<Rightarrow> nat \<Rightarrow> string" where
  "entryError env i = ''Failed to create commit '' @ showNat (i + 1) @ '': '' @ commitFailure env i"

definition entryErrors :: "Env \<Rightarrow> nat \<Rightarrow> nat \<Rightarrow> string list" where
  "entryErrors env i n = map (entryError env) (filter (\<lambda>k. \<not> succeeded env k) [i ..< i + n])"

definition entryProgress :: "Env \<Rightarrow> nat \<Rightarrow> nat \<times> CommitPlan \<Rightarrow> nat \<times> nat \<times> string" where
  "entryProgress env totl kc =
     (fst kc + 1, totl,
      if succeeded env (fst kc)
      then ''Committed: '' @ message (snd kc) @ '' ('' @ fmtDateTime (date (snd kc)) @ '')''
      else ''Error: '' @ commitFailure env (fst kc))"

text \<open>The state after the loop body has run on every entry of a list, with no check in between.\<close>

fun runEntries :: "Env \<Rightarrow> Config \<Rightarrow> bool \<Rightarrow> nat \<Rightarrow> nat \<Rightarrow> CommitPlan list \<Rightarrow> RunState \<Rightarrow> RunState" where
  "runEntries env config sink totl i [] st = st"
| "runEntries env config sink totl i (c # cs) st =
     runEntries env config sink totl (Suc i) cs (attemptCommit env config sink totl i c st)"

definition pushErrors :: "Env \<Rightarrow> Config \<Rightarrow> nat \<Rightarrow> string list" where
  "pushErrors env config applied =
     (if autoPush config \<and> 0 < applied
      then (case envPush env of
              Some e \<Rightarrow> [''Failed to push: Failed to push to remote: '' @ e]
            | None \<Rightarrow> [])
      else [])"

definition pushCalls :: "Config \<Rightarrow> nat \<Rightarrow> GitCall list" where
  "pushCalls config applied = (if autoPush config \<and> 0 < applied then [Push (branch config)] else [])"

definition cancelSeen :: "Env \<Rightarrow> nat \<Rightarrow> bool" where
  "cancelSeen env m = (envCancelInValidate env \<or> (\<exists>j < m. envCancelInCommit env j))"

text \<open>The run state when the loop is entered: both fields reset, then the first await.\<close>

definition startState :: "Env \<Rightarrow> CommitGenerator \<Rightarrow> RunState" where
  "startState env g =
     \<lparr>gen = g\<lparr>generatedCommits := 0, cancelled := envCancelInValidate env\<rparr>,
      runErrors = [], progressLog = []\<rparr>"

text \<open>
  The entries \<open>generate\<close> plans (none when the plan cannot be built), and the account of a
  run that ends in the state \<open>st\<close>: it attempted the first \<open>p\<close> planned entries and made the
  push calls \<open>pc\<close>; its log is the prior log followed by exactly those calls; its applied
  count is the number of successes among the \<open>p\<close> attempts; its flag is set exactly when a
  signal arrived during one of the awaits of this run.
\<close>

definition plannedEntries :: "rng \<Rightarrow> Config \<Rightarrow> CommitPlan list" where
  "plannedEntries rnd config = (case generatePlan rnd config of Inr plan \<Rightarrow> plan | Inl e \<Rightarrow> [])"

definition runAccount :: "Env \<Rightarrow> Config \<Rightarrow> CommitPlan list \<Rightarrow> CommitGenerator \<Rightarrow> RunState \<Rightarrow> nat \<Rightarrow> GitCall list \<Rightarrow> bool" where
  "runAccount env config plan g st p pc =
     (p \<le> length plan
      \<and> (pc = [] \<or> pc = [Push (branch config)])
      \<and> gitLog (gen st) = gitLog g @ map (commitCall config) (take p plan) @ pc
      \<and> generatedCommits (gen st) = int (successCount env 0 p)
      \<and> cancelled (gen st)
          = (envCancelInValidate env \<or> (\<exists>j<p. envCancelInCommit env j) \<or> (pc \<noteq> [] \<and> envCancelInPush env)))"


section \<open>Example inputs\<close>

definition weekConfig :: Config where
  "weekConfig = \<lparr>repoPath = ''.'', startDate = ''2024-01-01'', endDate = ''2024-01-07'',
     commitsPerDay = \<lparr>cpdMin = 1, cpdMax = 1\<rparr>, commitMessage = ''commit #{{index}}'',
     targetFile = ''.auto-commit-log'', skipDays = [0, 6], skipProbability = 0,
     timeRange = \<lparr>trStart = ''09:00'', trEnd = ''18:00''\<rparr>, autoPush = False, branch = None\<rparr>"

definition narrowConfig :: Config where
  "narrowConfig = \<lparr>repoPath = ''.'', startDate = ''2024-01-01'', endDate = ''2024-01-01'',
     commitsPerDay = \<lparr>cpdMin = 1, cpdMax = 1\<rparr>, commitMessage = ''commit #{{index}}'',
     targetFile = ''.auto-commit-log'', skipDays = [], skipProbability = 0,
     timeRange = \<lparr>trStart = ''09:00'', trEnd = ''09:00''\<rparr>, autoPush = False, branch = None\<rparr>"

definition halfRng :: rng where
  "halfRng = (\<lambda>n. 1 / 2)"

definition pairConfig :: Config where
  "pairConfig = narrowConfig\<lparr>commitsPerDay := \<lparr>cpdMin = 2, cpdMax = 2\<rparr>\<rparr>"

definition quietConfig :: Config where
  "quietConfig = narrowConfig\<lparr>skipDays := [1]\<rparr>"

definition okEnv :: Env where
  "okEnv = \<lparr>envRepoPath = ''/repo'',
            envStatus = Inr \<lparr>isRepo = True, currentBranch = Some ''main'', hasUncommittedChanges = False,
                             remoteUrl = None, isConnected = False\<rparr>,
            envCommit = (\<lambda>i. Inr ''0123456789abcdef''),
            envReset = (\<lambda>n. None),
            envPush = None,
            envCancelInValidate = False,
            envCancelInCommit = (\<lambda>i. False),
            envCancelInPush = False,
            envDuration = 0\<rparr>"

definition flakyEnv :: Env where
  "flakyEnv = okEnv\<lparr>envCommit := (\<lambda>i. if i = 0 then Inl ''index.lock exists'' else Inr ''0123456789abcdef'')\<rparr>"

definition interruptedEnv :: Env where
  "interruptedEnv = okEnv\<lparr>envCancelInCommit := (\<lambda>i. i = 0)\<rparr>"

definition freshGenerator :: CommitGenerator where
  "freshGenerator = \<lparr>cancelled = False, generatedCommits = 0, gitLog = []\<rparr>"

definition pairPlan :: "CommitPlan list" where
  "pairPlan = [\<lparr>date = 1704099630500, time = ''09:00:30'', message = ''commit #1'', index = 0\<rparr>,
               \<lparr>date = 1704099630500, time = ''09:00:30'', message = ''commit #2'', index = 1\<rparr>]"

definition tenDayConfig :: Config where
  "tenDayConfig = narrowConfig\<lparr>endDate := ''2024-01-10'', commitsPerDay := \<lparr>cpdMin = 3, cpdMax = 3\<rparr>\<rparr>"

definition notRepoEnv :: Env where
  "notRepoEnv = okEnv\<lparr>envStatus := Inr \<lparr>isRepo = False, currentBranch = None, hasUncommittedChanges = False,
                                            remoteUrl = None, isConnected = False\<rparr>\<rparr>"

definition staleGenerator :: CommitGenerator where
  "staleGenerator = \<lparr>cancelled = True, generatedCommits = 7, gitLog = []\<rparr>"

text \<open>
  America/New_York in 2024: the hour from 02:00 on 10 March is skipped. The readings are
  local milliseconds; 1710036000000 is 2024-03-10 02:00.
\<close>

definition newYork2024 :: zone where
  "newYork2024 = (\<lambda>t. if 1710036000000 \<le> t \<and> t < 1710039600000 then t + 3600000 else t)"

definition gapDayConfig :: Config where
  "gapDayConfig = narrowConfig\<lparr>startDate := ''2024-03-10'', endDate := ''2024-03-10'',
                                timeRange := \<lparr>trStart = ''02:30'', trEnd = ''02:30''\<rparr>\<rparr>"

section \<open>The plan builder\<close>

subsection \<open>Indices and order\<close>

lemma index_commitsForDay: "map index (commitsForDay rnd config day c n ci) = [ci ..< ci + c]"
proof (induction c arbitrary: n ci)
  case 0
  show ?case by simp
next
  case (Suc c)
  have "map index (commitsForDay rnd config day (Suc c) n ci)
        = ci # map index (commitsForDay rnd config day c (n + 3) (ci + 1))"
    by (simp add: Let_def)
  also have "\<dots> = ci # [ci + 1 ..< ci + 1 + c]" using Suc.IH by simp
  also have "\<dots> = [ci ..< ci + Suc c]" by (simp add: upt_rec)
  finally show ?case .
qed

lemma length_commitsForDay: "length (commitsForDay rnd config day c n ci) = c"
  using index_commitsForDay [of rnd config day c n ci, THEN arg_cong, of length] by simp

lemma index_planDays:
  "map index (planDays rnd config days n ci) = [ci ..< ci + length (planDays rnd config days n ci)]"
proof (induction days arbitrary: n ci)
  case Nil
  show ?case by simp
next
  case (Cons day days)
  show ?case
  proof (cases "shouldSkipDay rnd n (skipProbability config)")
    case True
    then show ?thesis using Cons.IH by simp
  next
    case False
    define c where "c = nat (getRandomCommitCount rnd (n + 1) (cpdMin (commitsPerDay config)) (cpdMax (commitsPerDay config)))"
    define rest where "rest = planDays rnd config days (n + 2 + 3 * c) (ci + c)"
    have eq: "planDays rnd config (day # days) n ci = commitsForDay rnd config day c (n + 2) ci @ rest"
      using False by (simp add: c_def rest_def Let_def)
    have "map index rest = [ci + c ..< ci + c + length rest]"
      unfolding rest_def by (rule Cons.IH)
    then have "map index (commitsForDay rnd config day c (n + 2) ci @ rest) = [ci ..< ci + c] @ [ci + c ..< ci + c + length rest]"
      by (simp add: index_commitsForDay)
    also have "\<dots> = [ci ..< ci + (c + length rest)]"
      using upt_add_eq_append [of ci "ci + c" "length rest"] by (simp add: add.assoc)
    finally show ?thesis unfolding eq by (simp add: length_commitsForDay)
  qed
qed

lemma planOrder_insort:
  "sorted_wrt planOrder ys \<Longrightarrow> \<forall>y \<in> set ys. index x < index y \<Longrightarrow> sorted_wrt planOrder (insort_key date x ys)"
proof (induction ys)
  case Nil
  show ?case by simp
next
  case (Cons y ys)
  show ?case
  proof (cases "date x \<le> date y")
    case True
    have "planOrder x z" if "z \<in> set (y # ys)" for z
    proof -
      have "date y \<le> date z" using that Cons.prems(1) by (auto simp: planOrder_def)
      moreover have "index x < index z" using that Cons.prems(2) by auto
      ultimately show ?thesis using True by (auto simp: planOrder_def)
    qed
    then show ?thesis using True Cons.prems(1) by simp
  next
    case False
    have "sorted_wrt planOrder (insort_key date x ys)"
      using Cons.IH Cons.prems by simp
    moreover have "planOrder y z" if "z \<in> set (insort_key date x ys)" for z
      using that False Cons.prems(1) by (auto simp: set_insort_key planOrder_def)
    ultimately show ?thesis using False by simp
  qed
qed

lemma planOrder_sort:
  "sorted_wrt (\<lambda>a b. index a < index b) xs \<Longrightarrow> sorted_wrt planOrder (sort_key date xs)"
proof (induction xs)
  case Nil
  show ?case by simp
next
  case (Cons x xs)
  then show ?case by (simp add: planOrder_insort)
qed

lemma planDays_index_increasing:
  "sorted_wrt (\<lambda>a b. index a < index b) (planDays rnd config days n ci)"
proof -
  have "sorted_wrt (<) (map index (planDays rnd config days n ci))"
    by (subst index_planDays) simp
  then show ?thesis by (simp add: sorted_wrt_map)
qed

lemma if_single_Nil: "((if c then [x] else ys) = []) = (\<not> c \<and> ys = [])"
  by simp

lemma validConfig_iff:
  "validConfig config \<longleftrightarrow>
     startDate config \<noteq> [] \<and> isValidDateFormat (startDate config)
     \<and> endDate config \<noteq> [] \<and> isValidDateFormat (endDate config)
     \<and> isValidDateRange (startDate config) (endDate config)
     \<and> isValidCommitsPerDay (cpdMin (commitsPerDay config)) (cpdMax (commitsPerDay config))
     \<and> isValidTimeFormat (trStart (timeRange config))
     \<and> isValidTimeFormat (trEnd (timeRange config))
     \<and> isValidProbability (skipProbability config)
     \<and> isValidSkipDays (skipDays config)"
  unfolding validConfig_def validateConfigErrors_def append_is_Nil_conv if_single_Nil
  by blast

lemma validConfig_dates:
  assumes "validConfig config"
  obtains s e where "parseISO (startDate config) = Some s" "parseISO (endDate config) = Some e" "s \<le> e"
proof -
  from assms have a: "isValidDateFormat (startDate config)" and b: "isValidDateFormat (endDate config)"
    and c: "isValidDateRange (startDate config) (endDate config)"
    by (simp_all add: validConfig_iff)
  from a obtain s where s: "parseISO (startDate config) = Some s" by (auto simp: isValidDateFormat_def)
  from b obtain e where e: "parseISO (endDate config) = Some e" by (auto simp: isValidDateFormat_def)
  from c a b s e have "s \<le> e" by (simp add: isValidDateRange_def)
  with s e show ?thesis using that by blast
qed

lemma validConfig_days:
  assumes "validConfig config"
  shows "getDaysInRange (startDate config) (endDate config) (skipDays config)
         = Inr (filter (\<lambda>day. getDay day \<notin> set (skipDays config))
                  (eachDayOfInterval (the (parseISO (startDate config))) (the (parseISO (endDate config)))))"
proof -
  from validConfig_dates [OF assms] obtain s e where
    "parseISO (startDate config) = Some s" "parseISO (endDate config) = Some e" "s \<le> e" by blast
  then show ?thesis by (simp add: getDaysInRange_def validateDateRange_def)
qed

subsection \<open>The instant of an entry\<close>















subsection \<open>Days, counts and the estimate\<close>




lemma floor_unit_draw: fixes r :: real assumes "0 \<le> r" "r < 1" shows "\<lfloor>r\<rfloor> = 0"
  using assms by (simp add: floor_eq_iff)

lemma length_planDays_fixed:
  assumes "rngOk rnd" "skipProbability config = 0"
    "cpdMin (commitsPerDay config) = k" "cpdMax (commitsPerDay config) = k"
  shows "length (planDays rnd config days n ci) = length days * nat k"
proof (induction days arbitrary: n ci)
  case Nil
  show ?case by simp
next
  case (Cons day days)
  have r: "0 \<le> rnd j \<and> rnd j < 1" for j using assms(1) by (simp add: rngOk_def)
  have noskip: "\<not> shouldSkipDay rnd n (skipProbability config)"
    using r [of n] by (simp add: shouldSkipDay_def assms(2))
  have cnt: "getRandomCommitCount rnd (n + 1) (cpdMin (commitsPerDay config)) (cpdMax (commitsPerDay config)) = k"
    using floor_unit_draw [of "rnd (n + 1)"] r [of "n + 1"]
    by (simp add: getRandomCommitCount_def assms(3) assms(4))
  have "planDays rnd config (day # days) n ci
        = commitsForDay rnd config day (nat k) (n + 2) ci
          @ planDays rnd config days (n + 2 + 3 * nat k) (ci + nat k)"
    using noskip cnt by (simp add: Let_def)
  then show ?case by (simp add: length_commitsForDay Cons.IH)
qed

lemma length_eachDayOfInterval:
  "length (eachDayOfInterval s en) = nat (calendarDay en - calendarDay s + 1)"
  by (simp add: eachDayOfInterval_def calendarDay_def)

subsection \<open>Time zones\<close>














section \<open>The execution engine\<close>

lemma attemptCommit_fields:
  "cancelled (gen (attemptCommit env config sink totl i c st)) = (cancelled (gen st) \<or> envCancelInCommit env i)"
  "generatedCommits (gen (attemptCommit env config sink totl i c st))
     = generatedCommits (gen st) + (if succeeded env i then 1 else 0)"
  "gitLog (gen (attemptCommit env config sink totl i c st)) = gitLog (gen st) @ [commitCall config c]"
  "runErrors (attemptCommit env config sink totl i c st)
     = runErrors st @ (if succeeded env i then [] else [entryError env i])"
  "progressLog (attemptCommit env config sink totl i c st)
     = progressLog st @ (if sink then [entryProgress env totl (i, c)] else [])"
  by (cases "envCommit env i";
      simp add: attemptCommit_def createCommit_def succeeded_def commitCall_def entryError_def
        commitFailure_def entryProgress_def mkError_def Let_def)+

lemma upt_head: "[i ..< i + Suc n] = i # [Suc i ..< Suc i + n]"
  by (simp add: upt_rec)

lemma runEntries_cancelled:
  "cancelled (gen (runEntries env config sink totl i cs st))
   = (cancelled (gen st) \<or> (\<exists>j. i \<le> j \<and> j < i + length cs \<and> envCancelInCommit env j))"
proof (induction cs arbitrary: i st)
  case Nil
  show ?case by auto
next
  case (Cons c cs)
  have "(\<exists>j. i \<le> j \<and> j < i + length (c # cs) \<and> envCancelInCommit env j)
        = (envCancelInCommit env i \<or> (\<exists>j. Suc i \<le> j \<and> j < Suc i + length cs \<and> envCancelInCommit env j))"
    (is "?L = ?R")
  proof
    assume ?L
    then obtain j where j: "i \<le> j" "j < i + length (c # cs)" "envCancelInCommit env j" by blast
    show ?R
    proof (cases "j = i")
      case True
      with j show ?thesis by simp
    next
      case False
      with j have "Suc i \<le> j \<and> j < Suc i + length cs \<and> envCancelInCommit env j" by simp
      then show ?thesis by blast
    qed
  next
    assume ?R
    then show ?L
    proof
      assume "envCancelInCommit env i"
      then have "i \<le> i \<and> i < i + length (c # cs) \<and> envCancelInCommit env i" by simp
      then show ?L by blast
    next
      assume "\<exists>j. Suc i \<le> j \<and> j < Suc i + length cs \<and> envCancelInCommit env j"
      then obtain j where "Suc i \<le> j" "j < Suc i + length cs" "envCancelInCommit env j" by blast
      then have "i \<le> j \<and> j < i + length (c # cs) \<and> envCancelInCommit env j" by simp
      then show ?L by blast
    qed
  qed
  then show ?case by (simp add: Cons.IH attemptCommit_fields del: length_Cons)
qed

lemma runEntries_generatedCommits:
  "generatedCommits (gen (runEntries env config sink totl i cs st))
   = generatedCommits (gen st) + int (successCount env i (length cs))"
proof (induction cs arbitrary: i st)
  case Nil
  show ?case by (simp add: successCount_def)
next
  case (Cons c cs)
  have "successCount env i (length (c # cs)) = (if succeeded env i then 1 else 0) + successCount env (Suc i) (length cs)"
    unfolding successCount_def length_Cons upt_head by simp
  then show ?case by (simp add: Cons.IH attemptCommit_fields del: length_Cons)
qed

lemma runEntries_gitLog:
  "gitLog (gen (runEntries env config sink totl i cs st)) = gitLog (gen st) @ map (commitCall config) cs"
  by (induction cs arbitrary: i st) (simp_all add: attemptCommit_fields)

lemma runEntries_runErrors:
  "runErrors (runEntries env config sink totl i cs st) = runErrors st @ entryErrors env i (length cs)"
proof (induction cs arbitrary: i st)
  case Nil
  show ?case by (simp add: entryErrors_def)
next
  case (Cons c cs)
  have "entryErrors env i (length (c # cs))
        = (if succeeded env i then [] else [entryError env i]) @ entryErrors env (Suc i) (length cs)"
    unfolding entryErrors_def length_Cons upt_head by simp
  then show ?case by (simp add: Cons.IH attemptCommit_fields del: length_Cons)
qed

lemma runEntries_progressLog:
  "progressLog (runEntries env config sink totl i cs st)
   = progressLog st @ (if sink then map (entryProgress env totl) (zip [i ..< i + length cs] cs) else [])"
proof (induction cs arbitrary: i st)
  case Nil
  show ?case by simp
next
  case (Cons c cs)
  have "zip [i ..< i + length (c # cs)] (c # cs) = (i, c) # zip [Suc i ..< Suc i + length cs] cs"
    unfolding length_Cons upt_head by simp
  then show ?case by (simp add: Cons.IH attemptCommit_fields del: length_Cons)
qed

text \<open>No signal while any entry but the last is in flight: the loop attempts every entry.\<close>

lemma executeCommits_complete:
  assumes "\<not> cancelled (gen st)" "\<forall>j. i \<le> j \<and> Suc j < i + length cs \<longrightarrow> \<not> envCancelInCommit env j"
  shows "executeCommits env config sink totl i cs st = (None, runEntries env config sink totl i cs st)"
  using assms
proof (induction cs arbitrary: i st)
  case Nil
  show ?case by simp
next
  case (Cons c cs)
  show ?case
  proof (cases cs)
    case Nil
    with Cons.prems(1) show ?thesis by simp
  next
    case (Cons c2 cs2)
    have "\<not> envCancelInCommit env i" using Cons.prems(2) Cons by simp
    with Cons.prems(1) have nc: "\<not> cancelled (gen (attemptCommit env config sink totl i c st))"
      by (simp add: attemptCommit_fields)
    have "\<forall>j. Suc i \<le> j \<and> Suc j < Suc i + length cs \<longrightarrow> \<not> envCancelInCommit env j"
      using Cons.prems(2) by simp
    from Cons.IH [OF nc this] Cons.prems(1) show ?thesis by simp
  qed
qed

text \<open>The flag is set when the loop reaches a further entry: it throws there.\<close>

lemma executeCommits_cancelled:
  assumes "cancelled (gen st)" "cs \<noteq> []"
  shows "executeCommits env config sink totl i cs st = (Some (cancelledError (generatedCommits (gen st))), st)"
  using assms by (cases cs) simp_all

lemma executeCommits_split:
  assumes "\<not> cancelled (gen st)" "\<forall>j. i \<le> j \<and> Suc j < i + m \<longrightarrow> \<not> envCancelInCommit env j" "m \<le> length cs"
  shows "executeCommits env config sink totl i cs st
         = (if m = 0 then executeCommits env config sink totl i cs st
            else executeCommits env config sink totl (i + m) (drop m cs)
                   (runEntries env config sink totl i (take m cs) st))"
  using assms
proof (induction m arbitrary: i cs st)
  case 0
  show ?case by simp
next
  case (Suc m)
  from Suc.prems(3) obtain c rest where cs: "cs = c # rest" by (cases cs) auto
  show ?case
  proof (cases m)
    case 0
    with Suc.prems(1) show ?thesis by (simp add: cs)
  next
    case (Suc m2)
    have "\<not> envCancelInCommit env i" using Suc.prems(2) Suc by simp
    with Suc.prems(1) have nc: "\<not> cancelled (gen (attemptCommit env config sink totl i c st))"
      by (simp add: attemptCommit_fields)
    have a: "\<forall>j. Suc i \<le> j \<and> Suc j < Suc i + m \<longrightarrow> \<not> envCancelInCommit env j"
      using Suc.prems(2) by simp
    have b: "m \<le> length rest" using Suc.prems(3) cs by simp
    from Suc.IH [OF nc a b] Suc Suc.prems(1) show ?thesis by (simp add: cs)
  qed
qed

lemma pushIfConfigured_fields:
  "generatedCommits (gen (pushIfConfigured env config st)) = generatedCommits (gen st)"
  "runErrors (pushIfConfigured env config st)
     = runErrors st @ pushErrors env config (nat (generatedCommits (gen st)))"
  "gitLog (gen (pushIfConfigured env config st))
     = gitLog (gen st) @ pushCalls config (nat (generatedCommits (gen st)))"
  "progressLog (pushIfConfigured env config st) = progressLog st"
  by (cases "envPush env"; simp add: pushIfConfigured_def push_def pushErrors_def pushCalls_def mkError_def)+

lemma generate_unfold:
  "generate env rnd config sink g =
     (case validateRepo env True of
        Some e \<Rightarrow> (Inl e, startState env g)
      | None \<Rightarrow>
          (case generatePlan rnd config of
             Inl e \<Rightarrow> (Inl e, startState env g)
           | Inr plan \<Rightarrow>
               (if plan = []
                then (Inr \<lparr>success = True, totalCommits = 0,
                           resStartDate = startDate config, resEndDate = endDate config,
                           duration = envDuration env,
                           errors = [''No commits to generate based on the configuration'']\<rparr>,
                      startState env g)
                else (case executeCommits env config sink (length plan) 0 plan (startState env g) of
                        (Some e, st2) \<Rightarrow> (Inl e, st2)
                      | (None, st2) \<Rightarrow>
                          (Inr \<lparr>success = (runErrors (pushIfConfigured env config st2) = []),
                                totalCommits = generatedCommits (gen (pushIfConfigured env config st2)),
                                resStartDate = startDate config, resEndDate = endDate config,
                                duration = envDuration env,
                                errors = runErrors (pushIfConfigured env config st2)\<rparr>,
                           pushIfConfigured env config st2)))))"
  by (simp add: generate_def startState_def Let_def split: option.splits sum.splits prod.splits)

lemma generate_complete:
  fixes env :: Env and config :: Config and sink :: bool and g :: CommitGenerator
  assumes "validateRepo env True = None" "generatePlan rnd config = Inr plan" "plan \<noteq> []"
    "\<not> envCancelInValidate env" "\<forall>j. Suc j < length plan \<longrightarrow> \<not> envCancelInCommit env j"
  defines "st2 \<equiv> runEntries env config sink (length plan) 0 plan (startState env g)"
  shows "generate env rnd config sink g =
           (Inr \<lparr>success = (runErrors (pushIfConfigured env config st2) = []),
                 totalCommits = generatedCommits (gen (pushIfConfigured env config st2)),
                 resStartDate = startDate config, resEndDate = endDate config,
                 duration = envDuration env,
                 errors = runErrors (pushIfConfigured env config st2)\<rparr>,
            pushIfConfigured env config st2)"
proof -
  have nc: "\<not> cancelled (gen (startState env g))" using assms(4) by (simp add: startState_def)
  have "executeCommits env config sink (length plan) 0 plan (startState env g) = (None, st2)"
    unfolding st2_def using executeCommits_complete [OF nc, of 0 plan env config sink "length plan"] assms(5)
    by simp
  then show ?thesis by (simp add: generate_unfold assms(1) assms(2) assms(3))
qed

lemma generate_cancelled:
  fixes env :: Env and config :: Config and sink :: bool and g :: CommitGenerator
  assumes "validateRepo env True = None" "generatePlan rnd config = Inr plan"
    "m < length plan" "cancelSeen env m" "\<forall>m' < m. \<not> cancelSeen env m'"
  defines "st2 \<equiv> runEntries env config sink (length plan) 0 (take m plan) (startState env g)"
  shows "generate env rnd config sink g = (Inl (cancelledError (generatedCommits (gen st2))), st2)"
proof (cases m)
  case 0
  with assms(4) have c: "cancelled (gen (startState env g))" by (simp add: cancelSeen_def startState_def)
  from assms(3) have ne: "plan \<noteq> []" by auto
  have "st2 = startState env g" by (simp add: st2_def 0)
  with executeCommits_cancelled [OF c ne] show ?thesis
    by (simp add: generate_unfold assms(1) assms(2) ne)
next
  case (Suc k)
  from assms(3) have ne: "plan \<noteq> []" by auto
  have "\<not> cancelSeen env 0" using assms(5) Suc by simp
  then have nc: "\<not> cancelled (gen (startState env g))" by (simp add: cancelSeen_def startState_def)
  have quiet: "\<forall>j. 0 \<le> j \<and> Suc j < 0 + m \<longrightarrow> \<not> envCancelInCommit env j"
  proof (intro allI impI)
    fix j assume j: "0 \<le> j \<and> Suc j < 0 + m"
    then have "\<not> cancelSeen env (Suc j)" using assms(5) by simp
    then show "\<not> envCancelInCommit env j" by (auto simp: cancelSeen_def)
  qed
  have "\<not> cancelSeen env k" using assms(5) Suc by simp
  with assms(4) Suc have sig: "envCancelInCommit env k"
    by (auto simp: cancelSeen_def less_Suc_eq)
  have le: "m \<le> length plan" using assms(3) by simp
  have split: "executeCommits env config sink (length plan) 0 plan (startState env g)
        = executeCommits env config sink (length plan) m (drop m plan) st2"
    using executeCommits_split [OF nc quiet le, of config sink "length plan"] Suc by (simp add: st2_def)
  have "length (take m plan) = m" using le by simp
  then have c: "cancelled (gen st2)"
    unfolding st2_def runEntries_cancelled using sig Suc by auto
  have rest: "drop m plan \<noteq> []" using assms(3) by simp
  show ?thesis
    by (simp add: generate_unfold assms(1) assms(2) ne split executeCommits_cancelled [OF c rest])
qed

subsection \<open>The state at the end of a run\<close>

lemma pushIfConfigured_cancelled:
  "cancelled (gen (pushIfConfigured env config st))
   = (cancelled (gen st) \<or> (pushCalls config (nat (generatedCommits (gen st))) \<noteq> [] \<and> envCancelInPush env))"
  by (cases "envPush env"; simp add: pushIfConfigured_def push_def pushCalls_def)

lemma pushCalls_shape: "pushCalls config n = [] \<or> pushCalls config n = [Push (branch config)]"
  by (simp add: pushCalls_def)

lemma executeCommits_prefix:
  "\<exists>p. p \<le> length cs
       \<and> snd (executeCommits env config sink totl i cs st) = runEntries env config sink totl i (take p cs) st
       \<and> (fst (executeCommits env config sink totl i cs st) = None \<longrightarrow> p = length cs)"
proof (induction cs arbitrary: i st)
  case Nil
  show ?case by simp
next
  case (Cons c cs)
  show ?case
  proof (cases "cancelled (gen st)")
    case True
    then have "snd (executeCommits env config sink totl i (c # cs) st)
                 = runEntries env config sink totl i (take 0 (c # cs)) st
               \<and> (fst (executeCommits env config sink totl i (c # cs) st) = None \<longrightarrow> 0 = length (c # cs))"
      by simp
    then show ?thesis by (intro exI [where x = 0]) simp
  next
    case False
    from Cons.IH [of "Suc i" "attemptCommit env config sink totl i c st"] obtain p where
      p: "p \<le> length cs"
         "snd (executeCommits env config sink totl (Suc i) cs (attemptCommit env config sink totl i c st))
            = runEntries env config sink totl (Suc i) (take p cs) (attemptCommit env config sink totl i c st)"
         "fst (executeCommits env config sink totl (Suc i) cs (attemptCommit env config sink totl i c st)) = None
            \<longrightarrow> p = length cs"
      by (elim exE conjE)
    have step: "executeCommits env config sink totl i (c # cs) st
                = executeCommits env config sink totl (Suc i) cs (attemptCommit env config sink totl i c st)"
      using False by simp
    have run: "runEntries env config sink totl i (take (Suc p) (c # cs)) st
               = runEntries env config sink totl (Suc i) (take p cs) (attemptCommit env config sink totl i c st)"
      by simp
    have "Suc p \<le> length (c # cs)" using p(1) by simp
    moreover have "snd (executeCommits env config sink totl i (c # cs) st)
            = runEntries env config sink totl i (take (Suc p) (c # cs)) st"
      unfolding step run by (rule p(2))
    moreover have "fst (executeCommits env config sink totl i (c # cs) st) = None \<longrightarrow> Suc p = length (c # cs)"
      unfolding step using p(3) by simp
    ultimately show ?thesis by (intro exI [where x = "Suc p"]) simp
  qed
qed

lemma runEntries_from_start:
  assumes "p \<le> length plan"
    and st_def: "st = runEntries env config sink totl 0 (take p plan) (startState env g)"
  shows "gitLog (gen st) = gitLog g @ map (commitCall config) (take p plan)"
    and "generatedCommits (gen st) = int (successCount env 0 p)"
    and "cancelled (gen st) = (envCancelInValidate env \<or> (\<exists>j<p. envCancelInCommit env j))"
proof -
  have len: "length (take p plan) = p" using assms(1) by simp
  show "gitLog (gen st) = gitLog g @ map (commitCall config) (take p plan)"
    unfolding st_def runEntries_gitLog by (simp add: startState_def)
  show "generatedCommits (gen st) = int (successCount env 0 p)"
    unfolding st_def runEntries_generatedCommits len by (simp add: startState_def)
  show "cancelled (gen st) = (envCancelInValidate env \<or> (\<exists>j<p. envCancelInCommit env j))"
    unfolding st_def runEntries_cancelled len by (simp add: startState_def)
qed

lemma startState_account: "runAccount env config plan g (startState env g) 0 []"
  by (simp add: runAccount_def startState_def successCount_def)

lemma account_exI:
  assumes "runAccount env config plan g st p pc"
  shows "\<exists>p pc. runAccount env config plan g st p pc"
proof -
  from assms have "\<exists>pc. runAccount env config plan g st p pc" by (rule exI)
  then show ?thesis by (rule exI)
qed

lemma generate_account:
  "\<exists>p pc. runAccount env config (plannedEntries rnd config) g (snd (generate env rnd config sink g)) p pc"
proof (cases "validateRepo env True")
  case (Some e)
  then have "snd (generate env rnd config sink g) = startState env g" by (simp add: generate_unfold)
  then have "runAccount env config (plannedEntries rnd config) g (snd (generate env rnd config sink g)) 0 []"
    by (simp add: startState_account)
  then show ?thesis by (rule account_exI)
next
  case None
  show ?thesis
  proof (cases "generatePlan rnd config")
    case (Inl e)
    with None have "snd (generate env rnd config sink g) = startState env g" by (simp add: generate_unfold)
    then have "runAccount env config (plannedEntries rnd config) g (snd (generate env rnd config sink g)) 0 []"
      by (simp add: startState_account)
    then show ?thesis by (rule account_exI)
  next
    case (Inr plan)
    then have pe: "plannedEntries rnd config = plan" by (simp add: plannedEntries_def)
    show ?thesis
    proof (cases "plan = []")
      case True
      with None Inr have "snd (generate env rnd config sink g) = startState env g" by (simp add: generate_unfold)
      then have "runAccount env config (plannedEntries rnd config) g (snd (generate env rnd config sink g)) 0 []"
        by (simp add: startState_account)
      then show ?thesis by (rule account_exI)
    next
      case False
      define ex where "ex = executeCommits env config sink (length plan) 0 plan (startState env g)"
      from executeCommits_prefix [of plan env config sink "length plan" 0 "startState env g"] obtain p where
        p: "p \<le> length plan"
           "snd ex = runEntries env config sink (length plan) 0 (take p plan) (startState env g)"
           "fst ex = None \<longrightarrow> p = length plan"
        unfolding ex_def by (elim exE conjE)
      note f = runEntries_from_start [OF p(1) p(2)]
      show ?thesis
      proof (cases "fst ex")
        case (Some e)
        then have "snd (generate env rnd config sink g) = snd ex"
          using None Inr False by (cases ex) (simp add: generate_unfold ex_def)
        moreover have "runAccount env config plan g (snd ex) p []"
          using p(1) f by (simp add: runAccount_def)
        ultimately have "runAccount env config (plannedEntries rnd config) g (snd (generate env rnd config sink g)) p []"
          by (simp add: pe)
        then show ?thesis by (rule account_exI)
      next
        case None2: None
        then have g: "snd (generate env rnd config sink g) = pushIfConfigured env config (snd ex)"
          using None Inr False by (cases ex) (simp add: generate_unfold ex_def)
        from None2 p(3) have full: "p = length plan" by simp
        define pc where "pc = pushCalls config (nat (generatedCommits (gen (snd ex))))"
        have "runAccount env config plan g (pushIfConfigured env config (snd ex)) p pc"
          unfolding runAccount_def
          using p(1) f pushCalls_shape [of config "nat (generatedCommits (gen (snd ex)))"]
          by (simp add: pushIfConfigured_fields pushIfConfigured_cancelled pc_def)
        then have "runAccount env config (plannedEntries rnd config) g (snd (generate env rnd config sink g)) p pc"
          by (simp add: pe g)
        then show ?thesis by (rule account_exI)
      qed
    qed
  qed
qed

section \<open>Evaluated examples\<close>

lemma halfRng_ok: "rngOk halfRng"
  by (simp add: rngOk_def halfRng_def)

lemma weekConfig_valid: "validConfig weekConfig"
  by code_simp




lemma pairConfig_valid: "validConfig pairConfig"
  by code_simp


lemma pair_plan: "generateCommitPlan halfRng pairConfig = Inr pairPlan"
  by code_simp
lemma quiet_plan: "generateCommitPlan halfRng quietConfig = Inr []"
  by code_simp
lemma okEnv_repo: "validateRepo okEnv True = None"
  by (simp add: validateRepo_def getRepoStatus_def okEnv_def)
lemma flakyEnv_repo: "validateRepo flakyEnv True = None"
  by (simp add: validateRepo_def getRepoStatus_def okEnv_def flakyEnv_def)
lemma interruptedEnv_repo: "validateRepo interruptedEnv True = None"
  by (simp add: validateRepo_def getRepoStatus_def okEnv_def interruptedEnv_def)

lemma flaky_run:
  "generate flakyEnv halfRng pairConfig True freshGenerator
   = (Inr \<lparr>success = False, totalCommits = 1,
           resStartDate = ''2024-01-01'', resEndDate = ''2024-01-01'', duration = 0,
           errors = [''Failed to create commit 1: Failed to create commit: index.lock exists'']\<rparr>,
      \<lparr>gen = \<lparr>cancelled = False, generatedCommits = 1,
               gitLog = [CreateCommit ''commit #1'' 1704099630500 ''.auto-commit-log''
                           ''[2024-01-01 09:00:30] Commit #1: commit #1'',
                         CreateCommit ''commit #2'' 1704099630500 ''.auto-commit-log''
                           ''[2024-01-01 09:00:30] Commit #2: commit #2'']\<rparr>,
        runErrors = [''Failed to create commit 1: Failed to create commit: index.lock exists''],
        progressLog = [(1, 2, ''Error: Failed to create commit: index.lock exists''),
                       (2, 2, ''Committed: commit #2 (2024-01-01 09:00:30)'')]\<rparr>)"
  by code_simp

lemma quiet_run:
  "generate okEnv halfRng quietConfig True freshGenerator
   = (Inr \<lparr>success = True, totalCommits = 0,
           resStartDate = ''2024-01-01'', resEndDate = ''2024-01-01'', duration = 0,
           errors = [''No commits to generate based on the configuration'']\<rparr>,
      \<lparr>gen = \<lparr>cancelled = False, generatedCommits = 0, gitLog = []\<rparr>,
        runErrors = [], progressLog = []\<rparr>)"
  by code_simp

lemma notRepoEnv_repo:
  "validateRepo notRepoEnv True = Some (mkError (quoted ''/repo'' @ '' is not a Git repository'') NOT_A_GIT_REPO)"
  by (simp add: validateRepo_def getRepoStatus_def notRepoEnv_def okEnv_def)


lemma gap_day_plan:
  "generateCommitPlanIn newYork2024 halfRng gapDayConfig
   = Inr [\<lparr>date = 1710041430500, time = ''03:30:30'', message = ''commit #1'', index = 0\<rparr>]"
  by code_simp

lemma fixed_narrow_plan:
  "generateCommitPlanIn fixedZone halfRng narrowConfig =
     Inr [\<lparr>date = 1704099630500, time = ''09:00:30'', message = ''commit #1'', index = 0\<rparr>]"
  by code_simp

lemma gapDay_facts: "validConfig gapDayConfig" "windowOrdered gapDayConfig" "windowStart gapDayConfig = 150"
   "windowEnd gapDayConfig = 150" "minuteOfDay 1710041430500 = 210"
  by code_simp+

section \<open>The claims\<close>

subsection \<open>C1\<close>

text \<open>
  Claim C1. For every valid configuration, the plan returned by \<open>generateCommitPlan\<close> is
  sorted non-decreasing by timestamp, and of two entries with equal timestamps the one with
  the smaller \<open>index\<close> comes first. The indices are assigned in generation order and the
  sort is stable, so ties keep that order.
\<close>

theorem plan_sorted_by_timestamp_then_index:
  assumes "validConfig config"
  shows "\<exists>plan. generateCommitPlan rnd config = Inr plan
           \<and> sorted (map date plan)
           \<and> (\<forall>i j. i < j \<and> j < length plan \<and> date (plan ! i) = date (plan ! j)
                  \<longrightarrow> index (plan ! i) < index (plan ! j))"
proof -
  define days where "days = filter (\<lambda>day. getDay day \<notin> set (skipDays config))
                  (eachDayOfInterval (the (parseISO (startDate config))) (the (parseISO (endDate config))))"
  define plan where "plan = sort_key date (planDays rnd config days 0 0)"
  have gen: "generateCommitPlan rnd config = Inr plan"
    by (simp add: generateCommitPlan_def validConfig_days [OF assms] plan_def days_def)
  have ord: "sorted_wrt planOrder plan"
    unfolding plan_def by (rule planOrder_sort [OF planDays_index_increasing])
  have "sorted (map date plan)" unfolding plan_def by (rule sorted_sort_key)
  moreover have "index (plan ! i) < index (plan ! j)"
    if "i < j" "j < length plan" "date (plan ! i) = date (plan ! j)" for i j
    using sorted_wrt_nth_less [OF ord that(1) that(2)] that(3) by (simp add: planOrder_def)
  ultimately show ?thesis using gen by blast
qed

text \<open>
  With every draw equal to \<open>1/2\<close> the two entries of \<open>pairConfig\<close> get the same instant: a
  tie, kept in index order.
\<close>

theorem plan_sorted_by_timestamp_then_index_witness:
  "validConfig pairConfig
   \<and> (\<exists>plan. generateCommitPlan halfRng pairConfig = Inr plan
           \<and> sorted (map date plan)
           \<and> (\<forall>i j. i < j \<and> j < length plan \<and> date (plan ! i) = date (plan ! j)
                  \<longrightarrow> index (plan ! i) < index (plan ! j)))"
proof -
  have v: "validConfig pairConfig" by (rule pairConfig_valid)
  from plan_sorted_by_timestamp_then_index [OF v, of halfRng] v show ?thesis by blast
qed

subsection \<open>C2\<close>

text \<open>
  Claim C2. Let the check at the top of iteration \<open>m\<close> be the first that sees the
  \<open>cancelled\<close> flag set, with an entry \<open>m\<close> still to start. Then \<open>generate\<close> throws
  \<open>USER_CANCELLED\<close>; the applied count is exactly the number \<open>k\<close> of successful commits
  among the \<open>m\<close> entries attempted; the calls made are the \<open>createCommit\<close> calls of those
  \<open>m\<close> entries and nothing else: no further \<open>createCommit\<close>, no push, no reset.
\<close>

theorem cancellation_stops_before_next_entry:
  fixes env :: Env and config :: Config and sink :: bool and g :: CommitGenerator
  assumes "validateRepo env True = None" "generatePlan rnd config = Inr plan"
    "m < length plan" "cancelSeen env m" "\<forall>m' < m. \<not> cancelSeen env m'"
  shows "\<exists>st. generate env rnd config sink g = (Inl (cancelledError (int (successCount env 0 m))), st)
           \<and> code (cancelledError (int (successCount env 0 m))) = USER_CANCELLED
           \<and> getGeneratedCommitsCount (gen st) = int (successCount env 0 m)
           \<and> gitLog (gen st) = gitLog g @ map (commitCall config) (take m plan)"
proof -
  define st where "st = runEntries env config sink (length plan) 0 (take m plan) (startState env g)"
  have len: "length (take m plan) = m" using assms(3) by simp
  have cnt: "generatedCommits (gen st) = int (successCount env 0 m)"
    unfolding st_def runEntries_generatedCommits len by (simp add: startState_def)
  have lg: "gitLog (gen st) = gitLog g @ map (commitCall config) (take m plan)"
    unfolding st_def runEntries_gitLog by (simp add: startState_def)
  have "generate env rnd config sink g = (Inl (cancelledError (generatedCommits (gen st))), st)"
    unfolding st_def by (rule generate_cancelled [OF assms])
  with cnt lg show ?thesis
    by (simp add: getGeneratedCommitsCount_def cancelledError_def mkError_def)
qed

theorem cancellation_stops_before_next_entry_witness:
  "validateRepo interruptedEnv True = None \<and> generatePlan halfRng pairConfig = Inr pairPlan
   \<and> 1 < length pairPlan \<and> cancelSeen interruptedEnv 1 \<and> \<not> cancelSeen interruptedEnv 0
   \<and> (\<exists>st. generate interruptedEnv halfRng pairConfig True freshGenerator
              = (Inl (cancelledError (int (successCount interruptedEnv 0 1))), st)
           \<and> code (cancelledError (int (successCount interruptedEnv 0 1))) = USER_CANCELLED
           \<and> getGeneratedCommitsCount (gen st) = int (successCount interruptedEnv 0 1)
           \<and> gitLog (gen st) = gitLog freshGenerator @ map (commitCall pairConfig) (take 1 pairPlan))"
proof -
  have a: "validateRepo interruptedEnv True = None" by (rule interruptedEnv_repo)
  have b: "generatePlan halfRng pairConfig = Inr pairPlan" by (simp add: generatePlan_def pair_plan)
  have c: "1 < length pairPlan" by (simp add: pairPlan_def)
  have d: "cancelSeen interruptedEnv 1" by (simp add: cancelSeen_def interruptedEnv_def okEnv_def)
  have e: "\<forall>m' < 1. \<not> cancelSeen interruptedEnv m'" by (simp add: cancelSeen_def interruptedEnv_def okEnv_def)
  have f: "\<not> cancelSeen interruptedEnv 0" using e by simp
  from cancellation_stops_before_next_entry [OF a b c d e, of True freshGenerator] a b c d f show ?thesis by blast
qed

subsection \<open>C3\<close>

text \<open>
  Claim C3 says that both rollback entry points reject a count \<open>c \<le> 0\<close> with
  \<open>INVALID_CONFIG\<close>. \<open>CommitGenerator.rollback\<close> does not: its guard \<open>rollbackCount > 0\<close>
  makes it return normally, without an error, at \<open>0\<close> and at \<open>-3\<close>.
\<close>

theorem generator_rollback_nonpositive_not_rejected:
  "snd (rollback okEnv (Some 0) freshGenerator) = None \<and> snd (rollback okEnv (Some (- 3)) freshGenerator) = None"
  by (simp add: rollback_def)

text \<open>
  Claim C3, amended. For every count \<open>c \<le> 0\<close>, \<open>GitService.rollback\<close> fails with
  \<open>INVALID_CONFIG\<close> and issues no reset; \<open>CommitGenerator.rollback\<close> with that count
  returns normally and leaves the generator, its applied count and the repository as they
  were.
\<close>

theorem nonpositive_rollback_outcomes:
  assumes "c \<le> 0"
  shows "GitService_rollback env c lg = (lg, Some (mkError ''Rollback count must be greater than 0'' INVALID_CONFIG))
         \<and> rollback env (Some c) g = (g, None)"
  using assms by (simp add: GitService_rollback_def rollback_def)

theorem nonpositive_rollback_outcomes_witness:
  "(- 3 :: int) \<le> 0
   \<and> GitService_rollback okEnv (- 3) [] = ([], Some (mkError ''Rollback count must be greater than 0'' INVALID_CONFIG))
   \<and> rollback okEnv (Some (- 3)) freshGenerator = (freshGenerator, None)"
  using nonpositive_rollback_outcomes [of "- 3" okEnv "[]" freshGenerator] by simp

subsection \<open>C4\<close>




subsection \<open>C5\<close>

text \<open>
  Claim C5 says that \<open>success\<close> is true exactly when the error list is empty, and that the
  note of an empty plan is not an error. For an empty plan \<open>generate\<close> returns
  \<open>success = true\<close> with the note as the one element of \<open>errors\<close>.
\<close>

theorem empty_plan_success_with_nonempty_errors:
  "fst (generate okEnv halfRng quietConfig True freshGenerator)
   = Inr \<lparr>success = True, totalCommits = 0,
          resStartDate = ''2024-01-01'', resEndDate = ''2024-01-01'', duration = 0,
          errors = [''No commits to generate based on the configuration'']\<rparr>"
  by (simp add: quiet_run)

text \<open>
  Claim C5, amended. When the repository check passes and the built plan is empty,
  \<open>generate\<close> returns at once: the result has \<open>success = true\<close>, \<open>totalCommits = 0\<close> and an
  \<open>errors\<close> list that holds exactly the note; after the status queries of the repository
  check nothing more is asked of the repository (no \<open>createCommit\<close>, push or reset) and the
  progress sink is not called. When the plan is not empty and no cancellation is seen,
  \<open>generate\<close> returns a result whose \<open>success\<close> is true exactly when \<open>errors\<close> is empty; and
  every result \<open>generate\<close> returns is one of these two kinds.
\<close>

theorem success_flag_and_errors:
  "(validateRepo env True = None \<and> generatePlan rnd config = Inr [] \<longrightarrow>
      generate env rnd config sink g
      = (Inr \<lparr>success = True, totalCommits = 0,
              resStartDate = startDate config, resEndDate = endDate config,
              duration = envDuration env,
              errors = [''No commits to generate based on the configuration'']\<rparr>,
         \<lparr>gen = g\<lparr>generatedCommits := 0, cancelled := envCancelInValidate env\<rparr>,
           runErrors = [], progressLog = []\<rparr>))
   \<and> (validateRepo env True = None \<and> generatePlan rnd config = Inr plan \<and> plan \<noteq> []
        \<and> \<not> envCancelInValidate env \<and> (\<forall>j. Suc j < length plan \<longrightarrow> \<not> envCancelInCommit env j) \<longrightarrow>
      (\<exists>res st. generate env rnd config sink g = (Inr res, st) \<and> success res = (errors res = [])))
   \<and> (generate env rnd config sink g = (Inr res, st) \<longrightarrow>
      (\<exists>plan. generatePlan rnd config = Inr plan \<and>
         (if plan = []
          then success res \<and> totalCommits res = 0
               \<and> errors res = [''No commits to generate based on the configuration'']
               \<and> gitLog (gen st) = gitLog g \<and> progressLog st = []
          else success res = (errors res = []))))"
proof (intro conjI impI)
  assume "validateRepo env True = None \<and> generatePlan rnd config = Inr []"
  then show "generate env rnd config sink g
      = (Inr \<lparr>success = True, totalCommits = 0,
              resStartDate = startDate config, resEndDate = endDate config,
              duration = envDuration env,
              errors = [''No commits to generate based on the configuration'']\<rparr>,
         \<lparr>gen = g\<lparr>generatedCommits := 0, cancelled := envCancelInValidate env\<rparr>,
           runErrors = [], progressLog = []\<rparr>)"
    by (simp add: generate_unfold startState_def)
next
  assume h: "validateRepo env True = None \<and> generatePlan rnd config = Inr plan \<and> plan \<noteq> []
        \<and> \<not> envCancelInValidate env \<and> (\<forall>j. Suc j < length plan \<longrightarrow> \<not> envCancelInCommit env j)"
  then have a: "validateRepo env True = None" and b: "generatePlan rnd config = Inr plan" and c: "plan \<noteq> []"
    and d: "\<not> envCancelInValidate env" and e: "\<forall>j. Suc j < length plan \<longrightarrow> \<not> envCancelInCommit env j"
    by simp_all
  show "\<exists>res st. generate env rnd config sink g = (Inr res, st) \<and> success res = (errors res = [])"
    unfolding generate_complete [OF a b c d e] by simp
next
  assume assms: "generate env rnd config sink g = (Inr res, st)"
  show "\<exists>plan. generatePlan rnd config = Inr plan \<and>
           (if plan = []
            then success res \<and> totalCommits res = 0
                 \<and> errors res = [''No commits to generate based on the configuration'']
                 \<and> gitLog (gen st) = gitLog g \<and> progressLog st = []
            else success res = (errors res = []))"
  proof (cases "validateRepo env True")
    case (Some e)
    with assms show ?thesis by (simp add: generate_unfold)
  next
    case None
    show ?thesis
    proof (cases "generatePlan rnd config")
      case (Inl e)
      with assms None show ?thesis by (simp add: generate_unfold)
    next
      case (Inr plan)
      show ?thesis
      proof (cases "plan = []")
        case True
        with assms None Inr show ?thesis by (auto simp: generate_unfold startState_def)
      next
        case False
        obtain r st2 where ex: "executeCommits env config sink (length plan) 0 plan (startState env g) = (r, st2)"
          by (cases "executeCommits env config sink (length plan) 0 plan (startState env g)")
        show ?thesis
        proof (cases r)
          case (Some e)
          with assms None Inr False ex show ?thesis by (simp add: generate_unfold)
        next
          case None2: None
          with assms None Inr False ex show ?thesis by (auto simp: generate_unfold)
        qed
      qed
    qed
  qed
qed

theorem success_flag_and_errors_witness:
  "validateRepo okEnv True = None \<and> generatePlan halfRng quietConfig = Inr []
   \<and> generate okEnv halfRng quietConfig True staleGenerator
      = (Inr \<lparr>success = True, totalCommits = 0,
              resStartDate = ''2024-01-01'', resEndDate = ''2024-01-01'', duration = 0,
              errors = [''No commits to generate based on the configuration'']\<rparr>,
         \<lparr>gen = \<lparr>cancelled = False, generatedCommits = 0, gitLog = []\<rparr>,
           runErrors = [], progressLog = []\<rparr>)
   \<and> validateRepo flakyEnv True = None \<and> generatePlan halfRng pairConfig = Inr pairPlan \<and> pairPlan \<noteq> []
   \<and> \<not> envCancelInValidate flakyEnv \<and> \<not> envCancelInCommit flakyEnv 0
   \<and> (\<exists>res st. generate flakyEnv halfRng pairConfig True freshGenerator = (Inr res, st)
                 \<and> success res = (errors res = []))"
proof -
  note t = success_flag_and_errors
  have a: "validateRepo okEnv True = None" by (rule okEnv_repo)
  have b: "generatePlan halfRng quietConfig = Inr []" by (simp add: generatePlan_def quiet_plan)
  have c: "generate okEnv halfRng quietConfig True staleGenerator
      = (Inr \<lparr>success = True, totalCommits = 0,
              resStartDate = ''2024-01-01'', resEndDate = ''2024-01-01'', duration = 0,
              errors = [''No commits to generate based on the configuration'']\<rparr>,
         \<lparr>gen = \<lparr>cancelled = False, generatedCommits = 0, gitLog = []\<rparr>,
           runErrors = [], progressLog = []\<rparr>)"
    using t [where env = okEnv and rnd = halfRng and config = quietConfig and sink = True
                 and g = staleGenerator] a b
    by (simp add: staleGenerator_def okEnv_def quietConfig_def narrowConfig_def)
  have d: "validateRepo flakyEnv True = None" by (rule flakyEnv_repo)
  have e: "generatePlan halfRng pairConfig = Inr pairPlan" by (simp add: generatePlan_def pair_plan)
  have f: "pairPlan \<noteq> []" by (simp add: pairPlan_def)
  have g: "\<not> envCancelInValidate flakyEnv" by (simp add: flakyEnv_def okEnv_def)
  have h: "\<not> envCancelInCommit flakyEnv 0" by (simp add: flakyEnv_def okEnv_def)
  have i: "\<forall>j. Suc j < length pairPlan \<longrightarrow> \<not> envCancelInCommit flakyEnv j" by (simp add: flakyEnv_def okEnv_def)
  have j: "\<exists>res st. generate flakyEnv halfRng pairConfig True freshGenerator = (Inr res, st)
                 \<and> success res = (errors res = [])"
    using t [where env = flakyEnv and rnd = halfRng and config = pairConfig and sink = True
                 and g = freshGenerator and plan = pairPlan] d e f g i by blast
  from a b c d e f g h j show ?thesis by blast
qed

subsection \<open>C6\<close>

text \<open>
  Claim C6. On a non-empty plan, with no cancellation seen, a failed entry does not abort
  the run: every entry of the plan gets its \<open>createCommit\<close> call, in plan order; the applied
  count at the end is the number of entries whose commit succeeded; the error list holds
  one description for each failed entry, in order, followed by the push failure if there
  is one.
\<close>

theorem failed_entry_does_not_abort:
  fixes env :: Env and config :: Config and sink :: bool and g :: CommitGenerator
  assumes "validateRepo env True = None" "generatePlan rnd config = Inr plan" "plan \<noteq> []"
    "\<not> envCancelInValidate env" "\<forall>j. Suc j < length plan \<longrightarrow> \<not> envCancelInCommit env j"
  shows "\<exists>res st. generate env rnd config sink g = (Inr res, st)
           \<and> totalCommits res = int (successCount env 0 (length plan))
           \<and> generatedCommits (gen st) = int (successCount env 0 (length plan))
           \<and> errors res = entryErrors env 0 (length plan)
                            @ pushErrors env config (successCount env 0 (length plan))
           \<and> gitLog (gen st) = gitLog g @ map (commitCall config) plan
                                 @ pushCalls config (successCount env 0 (length plan))"
proof -
  define st2 where "st2 = runEntries env config sink (length plan) 0 plan (startState env g)"
  have cnt: "generatedCommits (gen st2) = int (successCount env 0 (length plan))"
    unfolding st2_def runEntries_generatedCommits by (simp add: startState_def)
  have errs: "runErrors st2 = entryErrors env 0 (length plan)"
    unfolding st2_def runEntries_runErrors by (simp add: startState_def)
  have lg: "gitLog (gen st2) = gitLog g @ map (commitCall config) plan"
    unfolding st2_def runEntries_gitLog by (simp add: startState_def)
  note gen = generate_complete [OF assms, of sink g, folded st2_def]
  show ?thesis
    unfolding gen by (simp add: pushIfConfigured_fields cnt errs lg)
qed

theorem failed_entry_does_not_abort_witness:
  "validateRepo flakyEnv True = None \<and> generatePlan halfRng pairConfig = Inr pairPlan \<and> pairPlan \<noteq> []
   \<and> \<not> envCancelInValidate flakyEnv \<and> \<not> envCancelInCommit flakyEnv 0
   \<and> (\<exists>res st. generate flakyEnv halfRng pairConfig True freshGenerator = (Inr res, st)
           \<and> totalCommits res = int (successCount flakyEnv 0 (length pairPlan))
           \<and> generatedCommits (gen st) = int (successCount flakyEnv 0 (length pairPlan))
           \<and> errors res = entryErrors flakyEnv 0 (length pairPlan)
                            @ pushErrors flakyEnv pairConfig (successCount flakyEnv 0 (length pairPlan))
           \<and> gitLog (gen st) = gitLog freshGenerator @ map (commitCall pairConfig) pairPlan
                                 @ pushCalls pairConfig (successCount flakyEnv 0 (length pairPlan)))"
proof -
  have a: "validateRepo flakyEnv True = None" by (rule flakyEnv_repo)
  have b: "generatePlan halfRng pairConfig = Inr pairPlan" by (simp add: generatePlan_def pair_plan)
  have c: "pairPlan \<noteq> []" by (simp add: pairPlan_def)
  have d: "\<not> envCancelInValidate flakyEnv" by (simp add: flakyEnv_def okEnv_def)
  have e: "\<forall>j. Suc j < length pairPlan \<longrightarrow> \<not> envCancelInCommit flakyEnv j"
    by (simp add: flakyEnv_def okEnv_def)
  have f: "\<not> envCancelInCommit flakyEnv 0" by (simp add: flakyEnv_def okEnv_def)
  from failed_entry_does_not_abort [OF a b c d e, of True freshGenerator] a b c d f
  show ?thesis by blast
qed

subsection \<open>C7\<close>

text \<open>
  Claim C7 says that after a successful commit the sink's first argument is the applied
  count. The first argument is \<open>i + 1\<close>, the position of the entry: when the first of two
  entries fails and the second succeeds, the sink is called with \<open>(2, 2, _)\<close> for the second
  while the applied count is \<open>1\<close>.
\<close>

theorem progress_first_argument_is_not_applied_count:
  "progressLog (snd (generate flakyEnv halfRng pairConfig True freshGenerator))
     = [(1, 2, ''Error: Failed to create commit: index.lock exists''),
        (2, 2, ''Committed: commit #2 (2024-01-01 09:00:30)'')]
   \<and> getGeneratedCommitsCount (gen (snd (generate flakyEnv halfRng pairConfig True freshGenerator))) = 1"
  by (simp add: flaky_run getGeneratedCommitsCount_def)

text \<open>
  Claim C7, amended. On a non-empty plan, with no cancellation seen, the progress sink is
  called once for each entry, successful or failed, in plan order; the call for the entry
  at position \<open>k\<close> (from \<open>0\<close>) has first argument \<open>k + 1\<close>, the number of entries attempted so
  far, and second argument the number of planned entries. The first argument is the
  applied count as long as no entry up to that one has failed.
\<close>

theorem progress_reports_position_and_total:
  fixes env :: Env and config :: Config and g :: CommitGenerator
  assumes "validateRepo env True = None" "generatePlan rnd config = Inr plan" "plan \<noteq> []"
    "\<not> envCancelInValidate env" "\<forall>j. Suc j < length plan \<longrightarrow> \<not> envCancelInCommit env j"
  shows "\<exists>res st. generate env rnd config True g = (Inr res, st)
           \<and> length (progressLog st) = length plan
           \<and> (\<forall>k < length plan.
                  fst (progressLog st ! k) = k + 1
                \<and> fst (snd (progressLog st ! k)) = length plan
                \<and> ((\<forall>j \<le> k. succeeded env j) \<longrightarrow> fst (progressLog st ! k) = successCount env 0 (k + 1)))"
proof -
  define st2 where "st2 = runEntries env config True (length plan) 0 plan (startState env g)"
  have pl: "progressLog st2 = map (entryProgress env (length plan)) (zip [0 ..< length plan] plan)"
    unfolding st2_def runEntries_progressLog by (simp add: startState_def)
  note gen = generate_complete [OF assms, of True g, folded st2_def]
  have all: "successCount env 0 (Suc k) = Suc k" if "\<forall>j \<le> k. succeeded env j" for k
  proof -
    have "filter (succeeded env) [0 ..< 0 + Suc k] = [0 ..< 0 + Suc k]"
      using that by (intro filter_True) auto
    then show ?thesis by (simp add: successCount_def)
  qed
  show ?thesis
    unfolding gen using all by (simp add: pushIfConfigured_fields pl entryProgress_def)
qed

theorem progress_reports_position_and_total_witness:
  "validateRepo okEnv True = None \<and> generatePlan halfRng pairConfig = Inr pairPlan \<and> pairPlan \<noteq> []
   \<and> \<not> envCancelInValidate okEnv \<and> \<not> envCancelInCommit okEnv 0
   \<and> (\<exists>res st. generate okEnv halfRng pairConfig True freshGenerator = (Inr res, st)
           \<and> length (progressLog st) = length pairPlan
           \<and> (\<forall>k < length pairPlan.
                  fst (progressLog st ! k) = k + 1
                \<and> fst (snd (progressLog st ! k)) = length pairPlan
                \<and> ((\<forall>j \<le> k. succeeded okEnv j) \<longrightarrow> fst (progressLog st ! k) = successCount okEnv 0 (k + 1))))"
proof -
  have a: "validateRepo okEnv True = None" by (rule okEnv_repo)
  have b: "generatePlan halfRng pairConfig = Inr pairPlan" by (simp add: generatePlan_def pair_plan)
  have c: "pairPlan \<noteq> []" by (simp add: pairPlan_def)
  have d: "\<not> envCancelInValidate okEnv" by (simp add: okEnv_def)
  have e: "\<forall>j. Suc j < length pairPlan \<longrightarrow> \<not> envCancelInCommit okEnv j" by (simp add: okEnv_def)
  have f: "\<not> envCancelInCommit okEnv 0" by (simp add: okEnv_def)
  from progress_reports_position_and_total [OF a b c d e, of freshGenerator] a b c d f
  show ?thesis by blast
qed

subsection \<open>C8\<close>

text \<open>
  Claim C8. With \<open>skipProbability = 0\<close>, no \<open>skipDays\<close> and \<open>min = max = k\<close>, on a valid date
  range and with draws in \<open>[0, 1)\<close>, the plan has exactly \<open>D * k\<close> entries, \<open>D\<close> the number of
  calendar days from \<open>startDate\<close> to \<open>endDate\<close> inclusive.
\<close>

theorem fixed_count_plan_length:
  assumes "rngOk rnd" "isValidDateRange (startDate config) (endDate config)"
    "skipProbability config = 0" "skipDays config = []"
    "cpdMin (commitsPerDay config) = k" "cpdMax (commitsPerDay config) = k" "0 \<le> k"
  shows "\<exists>plan. generateCommitPlan rnd config = Inr plan \<and> int (length plan) = calendarDays config * k"
proof -
  from assms(2) obtain s en where
    s: "parseISO (startDate config) = Some s" and en: "parseISO (endDate config) = Some en" and le: "s \<le> en"
    by (auto simp: isValidDateRange_def isValidDateFormat_def split: if_splits)
  have days: "getDaysInRange (startDate config) (endDate config) (skipDays config) = Inr (eachDayOfInterval s en)"
    using s en le by (simp add: getDaysInRange_def validateDateRange_def assms(4))
  have "calendarDay s \<le> calendarDay en"
    using le by (simp add: calendarDay_def msPerDay_def zdiv_mono1)
  then have D: "int (length (eachDayOfInterval s en)) = calendarDays config"
    by (simp add: length_eachDayOfInterval calendarDays_def s en)
  have "int (length (sort_key date (planDays rnd config (eachDayOfInterval s en) 0 0)))
        = int (length (eachDayOfInterval s en)) * k"
    using assms(7) by (simp add: length_planDays_fixed [OF assms(1) assms(3) assms(5) assms(6)])
  then show ?thesis by (simp add: generateCommitPlan_def days D)
qed

theorem fixed_count_plan_length_witness:
  "rngOk halfRng \<and> isValidDateRange (startDate tenDayConfig) (endDate tenDayConfig)
   \<and> skipProbability tenDayConfig = 0 \<and> skipDays tenDayConfig = []
   \<and> cpdMin (commitsPerDay tenDayConfig) = 3 \<and> cpdMax (commitsPerDay tenDayConfig) = 3 \<and> (0::int) \<le> 3
   \<and> calendarDays tenDayConfig = 10
   \<and> (\<exists>plan. generateCommitPlan halfRng tenDayConfig = Inr plan
           \<and> int (length plan) = calendarDays tenDayConfig * 3)"
proof -
  have a: "isValidDateRange (startDate tenDayConfig) (endDate tenDayConfig)" by code_simp
  have b: "skipProbability tenDayConfig = 0" by (simp add: tenDayConfig_def narrowConfig_def)
  have c: "skipDays tenDayConfig = []" by (simp add: tenDayConfig_def narrowConfig_def)
  have d: "cpdMin (commitsPerDay tenDayConfig) = 3" by (simp add: tenDayConfig_def)
  have e: "cpdMax (commitsPerDay tenDayConfig) = 3" by (simp add: tenDayConfig_def)
  have f: "(0::int) \<le> 3" by simp
  have g: "calendarDays tenDayConfig = 10" by code_simp
  from fixed_count_plan_length [OF halfRng_ok a b c d e f] halfRng_ok a b c d e f g
  show ?thesis by blast
qed

subsection \<open>C9\<close>

text \<open>
  Claim C9. For every valid configuration the estimate satisfies
  \<open>min \<le> expected \<le> max\<close>. The products and the halving are taken in the reals; the
  roundings of floating-point arithmetic are monotone and keep the order.
\<close>

theorem estimate_ordered:
  assumes "validConfig config"
  shows "\<exists>est. estimateCommitCount config = Inr est
           \<and> estMin est \<le> estExpected est \<and> estExpected est \<le> estMax est"
proof -
  define days where "days = filter (\<lambda>day. getDay day \<notin> set (skipDays config))
                  (eachDayOfInterval (the (parseISO (startDate config))) (the (parseISO (endDate config))))"
  define ed where "ed = real (length days) * (1 - skipProbability config)"
  define mn where "mn = cpdMin (commitsPerDay config)"
  define mx where "mx = cpdMax (commitsPerDay config)"
  from assms have "isValidProbability (skipProbability config)" "isValidCommitsPerDay mn mx"
    by (simp_all add: validConfig_iff mn_def mx_def)
  then have p: "skipProbability config \<le> 1" and m: "mn \<le> mx"
    by (simp_all add: isValidProbability_def isValidCommitsPerDay_def)
  have ed0: "0 \<le> ed" unfolding ed_def using p by simp
  have h1: "real_of_int mn \<le> real_of_int (mn + mx) / 2" using m by simp
  have h2: "real_of_int (mn + mx) / 2 \<le> real_of_int mx" using m by simp
  have "ed * real_of_int mn \<le> ed * (real_of_int (mn + mx) / 2)"
    by (rule mult_left_mono [OF h1 ed0])
  moreover have "ed * (real_of_int (mn + mx) / 2) \<le> ed * real_of_int mx"
    by (rule mult_left_mono [OF h2 ed0])
  ultimately have "\<lfloor>ed * real_of_int mn\<rfloor> \<le> \<lfloor>ed * real_of_int (mn + mx) / 2\<rfloor>"
    "\<lfloor>ed * real_of_int (mn + mx) / 2\<rfloor> \<le> \<lfloor>ed * real_of_int mx\<rfloor>"
    by (simp_all add: floor_mono)
  then show ?thesis
    by (simp add: estimateCommitCount_def validConfig_days [OF assms] Let_def
        days_def [symmetric] ed_def [symmetric] mn_def [symmetric] mx_def [symmetric])
qed

theorem estimate_ordered_witness:
  "validConfig weekConfig
   \<and> (\<exists>est. estimateCommitCount weekConfig = Inr est
           \<and> estMin est \<le> estExpected est \<and> estExpected est \<le> estMax est)"
proof -
  have v: "validConfig weekConfig" by (rule weekConfig_valid)
  from estimate_ordered [OF v] v show ?thesis by blast
qed

subsection \<open>C10\<close>

text \<open>
  Claim C10. \<open>generate\<close> begins by setting \<open>cancelled\<close> to false and the applied count to
  \<open>0\<close>, before its first await. So its outcome and final state do not depend on the values
  the two fields had before: a \<open>cancel()\<close> issued before \<open>generate\<close> is discarded. When the
  repository check fails, \<open>generate\<close> leaves the count at \<open>0\<close> and the flag as the signals of
  that one await set it. At the end of every run the applied count is the number of
  successes among the \<open>createCommit\<close> calls this run has made, and the flag is set exactly
  when a signal arrived during an await of this run: nothing is carried over.
\<close>

theorem generate_resets_flag_and_count:
  "generate env rnd config sink (g\<lparr>cancelled := c, generatedCommits := k\<rparr>) = generate env rnd config sink g
   \<and> generate env rnd config sink (cancel g) = generate env rnd config sink g
   \<and> (\<forall>e. validateRepo env True = Some e \<longrightarrow>
          generate env rnd config sink g
          = (Inl e, \<lparr>gen = g\<lparr>generatedCommits := 0, cancelled := envCancelInValidate env\<rparr>,
                     runErrors = [], progressLog = []\<rparr>))
   \<and> (\<exists>p pc. p \<le> length (plannedEntries rnd config)
         \<and> (pc = [] \<or> pc = [Push (branch config)])
         \<and> gitLog (gen (snd (generate env rnd config sink g)))
             = gitLog g @ map (commitCall config) (take p (plannedEntries rnd config)) @ pc
         \<and> generatedCommits (gen (snd (generate env rnd config sink g))) = int (successCount env 0 p)
         \<and> cancelled (gen (snd (generate env rnd config sink g)))
             = (envCancelInValidate env \<or> (\<exists>j<p. envCancelInCommit env j) \<or> (pc \<noteq> [] \<and> envCancelInPush env)))"
proof -
  have a: "generate env rnd config sink (g\<lparr>cancelled := c, generatedCommits := k\<rparr>) = generate env rnd config sink g"
    by (simp add: generate_def)
  have b: "generate env rnd config sink (cancel g) = generate env rnd config sink g"
    by (simp add: generate_def cancel_def)
  have c: "\<forall>e. validateRepo env True = Some e \<longrightarrow>
          generate env rnd config sink g
          = (Inl e, \<lparr>gen = g\<lparr>generatedCommits := 0, cancelled := envCancelInValidate env\<rparr>,
                     runErrors = [], progressLog = []\<rparr>)"
    by (simp add: generate_unfold startState_def)
  note d = generate_account [of env config rnd g sink, unfolded runAccount_def]
  show ?thesis
    by (intro conjI) (rule a, rule b, rule c, rule d)
qed

theorem generate_resets_flag_and_count_witness:
  "validateRepo notRepoEnv True = Some (mkError (quoted ''/repo'' @ '' is not a Git repository'') NOT_A_GIT_REPO)
   \<and> generate notRepoEnv halfRng pairConfig True staleGenerator
       = (Inl (mkError (quoted ''/repo'' @ '' is not a Git repository'') NOT_A_GIT_REPO),
          \<lparr>gen = \<lparr>cancelled = False, generatedCommits = 0, gitLog = []\<rparr>, runErrors = [], progressLog = []\<rparr>)
   \<and> generate okEnv halfRng pairConfig True staleGenerator = generate okEnv halfRng pairConfig True freshGenerator
   \<and> generate okEnv halfRng pairConfig True (cancel freshGenerator) = generate okEnv halfRng pairConfig True freshGenerator"
proof -
  note t = generate_resets_flag_and_count
  have a: "generate notRepoEnv halfRng pairConfig True staleGenerator
       = (Inl (mkError (quoted ''/repo'' @ '' is not a Git repository'') NOT_A_GIT_REPO),
          \<lparr>gen = \<lparr>cancelled = False, generatedCommits = 0, gitLog = []\<rparr>, runErrors = [], progressLog = []\<rparr>)"
    using t [where env = notRepoEnv and rnd = halfRng and config = pairConfig and sink = True
                 and g = staleGenerator] notRepoEnv_repo
    by (simp add: staleGenerator_def notRepoEnv_def okEnv_def)
  have "staleGenerator = freshGenerator\<lparr>cancelled := True, generatedCommits := 7\<rparr>"
    by (simp add: staleGenerator_def freshGenerator_def)
  then have b: "generate okEnv halfRng pairConfig True staleGenerator = generate okEnv halfRng pairConfig True freshGenerator"
    using t [where env = okEnv and rnd = halfRng and config = pairConfig and sink = True
                 and g = freshGenerator and c = True and k = 7] by simp
  have c: "generate okEnv halfRng pairConfig True (cancel freshGenerator) = generate okEnv halfRng pairConfig True freshGenerator"
    using t [where env = okEnv and rnd = halfRng and config = pairConfig and sink = True
                 and g = freshGenerator] by blast
  from a b c notRepoEnv_repo show ?thesis by blast
qed

end
